theory Spec2Isabelle
  imports Complex_Main "HOL-Library.Product_Lexorder"
begin

section \<open>Python values, numpy arrays and scipy sparse matrices\<close>

text \<open>
  The two source files, \<^verbatim>\<open>upwind_coupling.py\<close> and \<^verbatim>\<open>primal.py\<close>, compute with numpy
  arrays of 64-bit floats. The embedding idealises a float as a \<^typ>\<open>real\<close>: rounding is not
  modelled, and the places where IEEE arithmetic yields a non-finite number instead of
  raising are written out where they occur. Every Python exception is a value of
  \<open>error\<close>; a function that can raise returns \<open>error + 'a\<close>.
\<close>

datatype error =
    AssertionError | IndexError | ValueError | KeyError | TypeError | LinAlgError
  | Uninitialised

type_synonym 'a result = "error + 'a"

definition bindE :: "'a result \<Rightarrow> ('a \<Rightarrow> 'b result) \<Rightarrow> 'b result" where
  "bindE m f = (case m of Inl e \<Rightarrow> Inl e | Inr x \<Rightarrow> f x)"

text \<open>A two-dimensional array (dense or sparse): its shape and its entries.\<close>

record 'a array2 =
  nrows :: nat
  ncols :: nat
  elem :: "nat \<Rightarrow> nat \<Rightarrow> 'a"

definition of_rows :: "'a list list \<Rightarrow> 'a array2" where
  "of_rows rs = \<lparr>nrows = length rs, ncols = (case rs of [] \<Rightarrow> 0 | r # _ \<Rightarrow> length r),
                 elem = (\<lambda>i j. rs ! i ! j)\<rparr>"

text \<open>
  A \<^verbatim>\<open>scipy.sparse.csc_matrix\<close>: the stored entries of column \<open>j\<close> are the positions
  \<open>indptr ! j ..< indptr ! (j+1)\<close> of \<open>indices\<close> (row numbers) and \<open>stored\<close> (scipy's
  \<^verbatim>\<open>data\<close>). scipy checks on construction that \<open>indptr\<close> has one entry more than there are columns and stays inside
  \<open>indices\<close>, which is \<open>csc_ok\<close>.
\<close>

record csc =
  shape0 :: nat
  shape1 :: nat
  indptr :: "nat list"
  indices :: "nat list"
  stored :: "real list"

definition csc_ok :: "csc \<Rightarrow> bool" where
  "csc_ok A \<longleftrightarrow> length (indptr A) = Suc (shape1 A) \<and> sorted (indptr A)
      \<and> last (indptr A) \<le> length (indices A) \<and> length (indices A) = length (stored A)
      \<and> (\<forall>r \<in> set (indices A). r < shape0 A)"

text \<open>The stored entries \<open>(row, column, value)\<close>, column by column (\<^verbatim>\<open>tocoo()\<close>).\<close>

definition coo_of_csc :: "csc \<Rightarrow> (nat \<times> nat \<times> real) list" where
  "coo_of_csc A = concat (map (\<lambda>j. map (\<lambda>p. (indices A ! p, j, stored A ! p))
                                     [indptr A ! j ..< indptr A ! Suc j]) [0 ..< shape1 A])"

text \<open>
  \<^verbatim>\<open>sps.find(A)\<close>: the entries of \<open>A\<close> with duplicates summed, explicit zeros dropped,
  ordered by column and then by row (\<^verbatim>\<open>np.lexsort((row, col))\<close> in \<^verbatim>\<open>sum_duplicates\<close>).
\<close>

definition sps_find :: "csc \<Rightarrow> (nat \<times> nat \<times> real) list" where
  "sps_find A = (let es = coo_of_csc A in
     filter (\<lambda>(r, c, v). v \<noteq> 0)
       (map (\<lambda>(c, r). (r, c, sum_list (map (\<lambda>(r', c', v). v)
                                    (filter (\<lambda>(r', c', v). r' = r \<and> c' = c) es))))
            (sort (remdups (map (\<lambda>(r, c, v). (c, r)) es)))))"

definition find_rows :: "csc \<Rightarrow> nat list" where
  "find_rows A = map (\<lambda>(r, c, v). r) (sps_find A)"

definition find_cols :: "csc \<Rightarrow> nat list" where
  "find_cols A = map (\<lambda>(r, c, v). c) (sps_find A)"

definition find_vals :: "csc \<Rightarrow> real list" where
  "find_vals A = map (\<lambda>(r, c, v). v) (sps_find A)"

text \<open>
  \<^verbatim>\<open>A.tocsr()[fs, :].nonzero()[1]\<close>: for each requested row in turn, the columns of its
  stored non-zero entries in ascending order. A row number outside the matrix raises.
\<close>

definition rows_nonzero_cols :: "csc \<Rightarrow> nat list \<Rightarrow> nat list result" where
  "rows_nonzero_cols A fs =
     (if \<exists>f \<in> set fs. shape0 A \<le> f then Inl IndexError
      else Inr (concat (map (\<lambda>f. map (\<lambda>(r, c, v). c)
                                   (filter (\<lambda>(r, c, v). r = f \<and> v \<noteq> 0) (coo_of_csc A))) fs)))"

text \<open>\<^verbatim>\<open>a[idx]\<close> with an integer index array.\<close>

definition np_take :: "'a list \<Rightarrow> nat list \<Rightarrow> 'a list result" where
  "np_take a idx = (if \<exists>i \<in> set idx. length a \<le> i then Inl IndexError
                    else Inr (map (\<lambda>i. a ! i) idx))"

text \<open>\<^verbatim>\<open>a[mask]\<close> with a boolean mask: the mask must be as long as the array.\<close>

definition np_mask :: "'a list \<Rightarrow> bool list \<Rightarrow> 'a list result" where
  "np_mask a m = (if length m \<noteq> length a then Inl IndexError
                  else Inr (map fst (filter snd (zip a m))))"

text \<open>\<^verbatim>\<open>np.where(m)[0]\<close>: the positions that hold True.\<close>

definition np_where :: "bool list \<Rightarrow> nat list" where
  "np_where m = filter (\<lambda>i. m ! i) [0 ..< length m]"

text \<open>
  \<^verbatim>\<open>np.unique(xs, return_index=True)[1]\<close>: for each distinct value, in ascending order, the
  position of its first occurrence.
\<close>

fun first_index :: "'a list \<Rightarrow> 'a \<Rightarrow> nat" where
  "first_index [] v = 0"
| "first_index (x # xs) v = (if x = v then 0 else Suc (first_index xs v))"

definition unique_index :: "nat list \<Rightarrow> nat list" where
  "unique_index xs = map (first_index xs) (sort (remdups xs))"

text \<open>
  An elementwise operation on two one-dimensional arrays, with numpy's broadcasting of an
  array of length one.
\<close>

definition np_binop :: "(real \<Rightarrow> real \<Rightarrow> real) \<Rightarrow> real list \<Rightarrow> real list \<Rightarrow> real list result" where
  "np_binop f xs ys =
     (if length xs = length ys then Inr (map2 f xs ys)
      else if length ys = 1 then Inr (map (\<lambda>x. f x (hd ys)) xs)
      else if length xs = 1 then Inr (map (\<lambda>y. f (hd xs) y) ys)
      else Inl ValueError)"

text \<open>
  \<^verbatim>\<open>np.add.at(a, idx, vals)\<close>: the unbuffered \<open>a[idx[k]] += vals[k]\<close> for every \<open>k\<close>;
  \<open>vals\<close> must broadcast to the shape of \<open>idx\<close>.
\<close>

fun add_each :: "real list \<Rightarrow> (nat \<times> real) list \<Rightarrow> real list" where
  "add_each a [] = a"
| "add_each a ((i, v) # ps) = add_each (a[i := a ! i + v]) ps"

definition add_at :: "real list \<Rightarrow> nat list \<Rightarrow> real list \<Rightarrow> real list result" where
  "add_at a idx vals =
     (if length vals \<noteq> length idx \<and> length vals \<noteq> 1 then Inl ValueError
      else if \<exists>i \<in> set idx. length a \<le> i then Inl IndexError
      else Inr (add_each a (zip idx (if length vals = length idx then vals
                                     else replicate (length idx) (hd vals)))))"

text \<open>
  \<^verbatim>\<open>sps.coo_matrix((vals, (rows, cols)), shape=(m, n))\<close>; entries given twice add up.
\<close>

definition coo_matrix :: "real list \<Rightarrow> nat list \<Rightarrow> nat list \<Rightarrow> nat \<times> nat \<Rightarrow> real array2 result" where
  "coo_matrix vals rs cs shp =
     (if length rs \<noteq> length vals \<or> length cs \<noteq> length vals then Inl ValueError
      else if (\<exists>r \<in> set rs. fst shp \<le> r) \<or> (\<exists>c \<in> set cs. snd shp \<le> c) then Inl ValueError
      else Inr \<lparr>nrows = fst shp, ncols = snd shp,
                elem = (\<lambda>i j. sum_list (map (\<lambda>(r, c, v). v)
                           (filter (\<lambda>(r, c, v). r = i \<and> c = j) (zip rs (zip cs vals)))))\<rparr>)"

text \<open>
  \<^verbatim>\<open>sps.dia_matrix((d, 0), shape=(n, n))\<close>: \<open>d\<close> on the main diagonal, as far as both reach.
\<close>

definition dia_matrix :: "real list \<Rightarrow> nat \<Rightarrow> real array2" where
  "dia_matrix d n = \<lparr>nrows = n, ncols = n,
                     elem = (\<lambda>i j. if i = j \<and> i < n \<and> i < length d then d ! i else 0)\<rparr>"

section \<open>Grids, parameters and data dictionaries\<close>

text \<open>
  The grid object as the two files read it. \<open>cell_faces\<close> is faces by cells with entries
  \<open>\<plusminus>1\<close>, \<open>face_nodes\<close> is nodes by faces, \<open>cell_nodes\<close> (the value of \<^verbatim>\<open>g.cell_nodes()\<close>) is
  nodes by cells; \<open>cell_diameters\<close> is the value of \<^verbatim>\<open>g.cell_diameters()\<close>.
  \<open>isinstance_Grid\<close> is the test \<^verbatim>\<open>isinstance(g, grid.Grid)\<close>.
\<close>

record grid =
  dim :: nat
  num_cells :: nat
  num_faces :: nat
  num_nodes :: nat
  cell_faces :: csc
  face_nodes :: csc
  cell_nodes :: csc
  face_areas :: "real list"
  cell_volumes :: "real list"
  cell_diameters :: "real list"
  isinstance_Grid :: bool

record boundary_condition =
  is_dir :: "bool list"

text \<open>
  The parameter object: each field is what the accessor of that name returns. The
  permeability \<^verbatim>\<open>k.perm\<close> is a three-dimensional array, its last axis the cell.
\<close>

record array3 =
  shape3 :: "nat \<times> nat \<times> nat"
  elem3 :: "nat \<Rightarrow> nat \<Rightarrow> nat \<Rightarrow> real"

record parameters =
  get_tensor :: array3
  get_bc :: "boundary_condition option"
  get_bc_val :: "real list option"
  get_aperture :: "real list"
  get_source :: "real list"

text \<open>A Python dictionary with string keys holds values of several kinds.\<close>

datatype pyval = PyNone | PyBool bool | Arr "real list" | Sparse csc | Param parameters

type_synonym dict = "string \<Rightarrow> pyval option"

definition lookup :: "dict \<Rightarrow> string \<Rightarrow> pyval result" where
  "lookup d k = (case d k of None \<Rightarrow> Inl KeyError | Some v \<Rightarrow> Inr v)"

definition as_array :: "pyval \<Rightarrow> real list result" where
  "as_array v = (case v of Arr xs \<Rightarrow> Inr xs | _ \<Rightarrow> Inl TypeError)"

definition as_sparse :: "pyval \<Rightarrow> csc result" where
  "as_sparse v = (case v of Sparse A \<Rightarrow> Inr A | _ \<Rightarrow> Inl TypeError)"

definition as_param :: "pyval \<Rightarrow> parameters result" where
  "as_param v = (case v of Param p \<Rightarrow> Inr p | _ \<Rightarrow> Inl TypeError)"

text \<open>\<^verbatim>\<open>d.get(k, np.ones(n))\<close> read as an array.\<close>

definition get_or_ones :: "dict \<Rightarrow> string \<Rightarrow> nat \<Rightarrow> real list result" where
  "get_or_ones d k n = (case d k of None \<Rightarrow> Inr (replicate n 1) | Some v \<Rightarrow> as_array v)"

section \<open>The upwind coupling between two grids\<close>

text \<open>
  Modelled from the spec: \<^verbatim>\<open>create_block_matrix\<close> of the abstract coupling class is not
  among the sources. The spec gives the coupling builder one unknown per cell of each of
  the two grids, so the two block sizes are the two cell counts.
\<close>

definition create_block_matrix :: "grid \<Rightarrow> grid \<Rightarrow> nat \<times> nat" where
  "create_block_matrix g_h g_l = (num_cells g_h, num_cells g_l)"

record block_matrix =
  cc00 :: "real array2"
  cc01 :: "real array2"
  cc10 :: "real array2"
  cc11 :: "real array2"

text \<open>
  \<^verbatim>\<open>sgn = sgn[np.unique(faces, return_index=True)[1]]\<close> on the result of
  \<^verbatim>\<open>sps.find(g.cell_faces)\<close>: per face, the sign of its first listed entry.
\<close>

definition face_signs :: "csc \<Rightarrow> real list result" where
  "face_signs cf = np_take (find_vals cf) (unique_index (find_rows cf))"

text \<open>
  \<^verbatim>\<open>sgn[fs] * beta_n[fs']\<close>: the flux read at the faces \<open>fs'\<close>, with the orientation of
  the faces \<open>fs\<close> of the grid whose cell-face matrix is \<open>cf\<close>.
\<close>

definition signed_flux :: "csc \<Rightarrow> nat list \<Rightarrow> pyval \<Rightarrow> nat list \<Rightarrow> real list result" where
  "signed_flux cf fs beta_n fs' =
     bindE (face_signs cf) (\<lambda>sgn_g.
     bindE (np_take sgn_g fs) (\<lambda>s.
     bindE (as_array beta_n) (\<lambda>beta_n.
     bindE (np_take beta_n fs') (\<lambda>b. Inr (map2 (*) s b)))))"

text \<open>
  The branch \<^verbatim>\<open>g_h.dim == g_l.dim\<close> of \<^verbatim>\<open>matrix_rhs\<close>: it returns the two diagonal arrays
  and the two off-diagonal blocks. Both calls of
  \<^verbatim>\<open>np.add.at\<close> write to \<open>diag_cc11\<close>, as in the source; \<open>diag_cc00\<close> stays the zero array.
\<close>

definition matrix_rhs_equal_dim ::
  "grid \<Rightarrow> grid \<Rightarrow> dict \<Rightarrow> pyval \<Rightarrow> nat \<times> nat
     \<Rightarrow> (real list \<times> real list \<times> real array2 \<times> real array2) result" where
  "matrix_rhs_equal_dim g_h g_l data_edge beta_n dof =
     bindE (lookup data_edge ''face_cells'') (\<lambda>fcv. bindE (as_sparse fcv) (\<lambda>face_cells.
     let faces_h = find_rows face_cells; faces_l = find_cols face_cells in
     bindE (signed_flux (cell_faces g_h) faces_h beta_n faces_h) (\<lambda>beta_n_h.
     bindE (signed_flux (cell_faces g_l) faces_l beta_n faces_h) (\<lambda>beta_n_l.
     bindE (rows_nonzero_cols (cell_faces g_h) faces_h) (\<lambda>cells_h.
     bindE (rows_nonzero_cols (cell_faces g_l) faces_l) (\<lambda>cells_l.
     let diag_cc11 = replicate (num_cells g_l) 0 in
     bindE (add_at diag_cc11 cells_l (map (\<lambda>b. sgn (max b 0) * b) beta_n_l)) (\<lambda>diag_cc11.
     let diag_cc00 = replicate (num_cells g_h) 0 in
     bindE (add_at diag_cc11 cells_h (map (\<lambda>b. sgn (max b 0) * b) beta_n_h)) (\<lambda>diag_cc11.
     bindE (coo_matrix (map (\<lambda>b. min b 0) beta_n_l) cells_l cells_h (snd dof, fst dof)) (\<lambda>c10.
     bindE (coo_matrix (map (\<lambda>b. min b 0) beta_n_h) cells_h cells_l (fst dof, snd dof)) (\<lambda>c01.
     Inr (diag_cc00, diag_cc11, c10, c01)))))))))))"

text \<open>The other branch: the faces of the higher grid meet cells of the lower grid.\<close>

definition matrix_rhs_adjacent ::
  "grid \<Rightarrow> grid \<Rightarrow> dict \<Rightarrow> pyval \<Rightarrow> nat \<times> nat
     \<Rightarrow> (real list \<times> real list \<times> real array2 \<times> real array2) result" where
  "matrix_rhs_adjacent g_h g_l data_edge beta_n dof =
     bindE (lookup data_edge ''face_cells'') (\<lambda>fcv. bindE (as_sparse fcv) (\<lambda>face_cells.
     let cells_l = find_rows face_cells; faces_h = find_cols face_cells in
     bindE (signed_flux (cell_faces g_h) faces_h beta_n faces_h) (\<lambda>beta_n.
     bindE (rows_nonzero_cols (cell_faces g_h) faces_h) (\<lambda>cells_h.
     let diag_cc11 = replicate (num_cells g_l) 0 in
     bindE (add_at diag_cc11 cells_l (map (\<lambda>b. sgn (min b 0) * b) beta_n)) (\<lambda>diag_cc11.
     let diag_cc00 = replicate (num_cells g_h) 0 in
     bindE (add_at diag_cc00 cells_h (map (\<lambda>b. sgn (max b 0) * b) beta_n)) (\<lambda>diag_cc00.
     bindE (coo_matrix (map (\<lambda>b. - max b 0) beta_n) cells_l cells_h (snd dof, fst dof)) (\<lambda>c10.
     bindE (coo_matrix (map (\<lambda>b. min b 0) beta_n) cells_h cells_l (fst dof, snd dof)) (\<lambda>c01.
     Inr (diag_cc00, diag_cc11, c10, c01)))))))))"

text \<open>\<^verbatim>\<open>UpwindCoupling.matrix_rhs\<close>.\<close>

definition matrix_rhs :: "grid \<Rightarrow> grid \<Rightarrow> dict \<Rightarrow> dict \<Rightarrow> dict \<Rightarrow> block_matrix result" where
  "matrix_rhs g_h g_l data_h data_l data_edge =
     bindE (lookup data_edge ''beta_n'') (\<lambda>beta_n.
     if (case beta_n of PyNone \<Rightarrow> True | _ \<Rightarrow> False) then Inl AssertionError
     else let dof = create_block_matrix g_h g_l in
       bindE (if dim g_h = dim g_l then matrix_rhs_equal_dim g_h g_l data_edge beta_n dof
              else matrix_rhs_adjacent g_h g_l data_edge beta_n dof)
         (\<lambda>(diag_cc00, diag_cc11, c10, c01).
            Inr \<lparr>cc00 = dia_matrix diag_cc00 (fst dof), cc01 = c01, cc10 = c10,
                  cc11 = dia_matrix diag_cc11 (snd dof)\<rparr>))"

text \<open>
  \<^verbatim>\<open>np.isclose(a, b, rtol, atol)\<close> on finite numbers.
\<close>

definition isclose :: "real \<Rightarrow> real \<Rightarrow> real \<Rightarrow> real \<Rightarrow> bool" where
  "isclose a b rtol atol \<longleftrightarrow> \<bar>a - b\<bar> \<le> atol + rtol * \<bar>b\<bar>"

text \<open>
  What \<^verbatim>\<open>cfl\<close> returns: a finite time step, \<^verbatim>\<open>np.inf\<close>, or the not-a-number that IEEE
  division produces where an aperture of the higher grid is zero (there \<open>dist\<close> and the
  scaled flux are both infinite, and their quotient is not a number).
\<close>

datatype float = Finite real | PosInf | NaN

text \<open>
  \<^verbatim>\<open>UpwindCoupling.cfl\<close>. The mask \<open>not_zero\<close> is applied to \<open>cells_l\<close> and \<open>faces_h\<close>, and
  then once more to the cells found for the faces that are left, as in the source.
\<close>

definition cfl :: "grid \<Rightarrow> grid \<Rightarrow> dict \<Rightarrow> dict \<Rightarrow> dict \<Rightarrow> float result" where
  "cfl g_h g_l data_h data_l data_edge =
     bindE (lookup data_edge ''beta_n'') (\<lambda>bv.
     bindE (lookup data_edge ''face_cells'') (\<lambda>fcv. bindE (as_sparse fcv) (\<lambda>face_cells.
     let cells_l = find_rows face_cells; faces_h = find_cols face_cells in
     bindE (as_array bv) (\<lambda>beta_n.
     bindE (np_take beta_n faces_h) (\<lambda>bf.
     let not_zero = map (\<lambda>b. \<not> isclose 0 b (1 / 100000) 0) bf in
     if \<not> (\<exists>b \<in> set not_zero. b) then Inr PosInf
     else
       bindE (np_mask cells_l not_zero) (\<lambda>cells_l.
       bindE (np_mask faces_h not_zero) (\<lambda>faces_h.
       bindE (rows_nonzero_cols (cell_faces g_h) faces_h) (\<lambda>ch.
       bindE (np_mask ch not_zero) (\<lambda>cells_h.
       bindE (get_or_ones data_h ''a'' (num_cells g_h)) (\<lambda>ah.
       bindE (np_take ah cells_h) (\<lambda>apertures_h.
       bindE (get_or_ones data_l ''a'' (num_cells g_l)) (\<lambda>al.
       bindE (np_take al cells_l) (\<lambda>apertures_l.
       bindE (get_or_ones data_l ''phi'' (num_cells g_l)) (\<lambda>pl.
       bindE (np_take pl cells_l) (\<lambda>phi_l.
       bindE (np_binop (/) apertures_l apertures_h) (\<lambda>q.
       let dist = map (\<lambda>x. 0.5 * x) q in
       bindE (np_take beta_n faces_h) (\<lambda>bf.
       bindE (np_take (face_areas g_h) faces_h) (\<lambda>fa.
       bindE (np_binop (*) fa apertures_h) (\<lambda>den.
       bindE (np_binop (/) bf den) (\<lambda>beta_n.
       bindE (np_binop (/) dist beta_n) (\<lambda>r.
       bindE (np_binop (*) (map abs r) phi_l) (\<lambda>dt.
       if dt = [] then Inl ValueError
       else if 0 \<in> set apertures_h then Inr NaN
       else Inr (Finite (Min (set dt)))))))))))))))))))))))))"

section \<open>The primal virtual element discretisation\<close>

text \<open>\<^verbatim>\<open>PrimalVEM.ndof\<close>.\<close>

definition ndof :: "grid \<Rightarrow> nat result" where
  "ndof g = (if isinstance_Grid g then Inr (num_nodes g) else Inl ValueError)"

text \<open>\<^verbatim>\<open>a[idx] = vals\<close> with an integer index array and as many values.\<close>

definition np_put :: "'a list \<Rightarrow> nat list \<Rightarrow> 'a list \<Rightarrow> 'a list result" where
  "np_put a idx vals = (if \<exists>i \<in> set idx. length a \<le> i then Inl IndexError
                        else Inr (fold (\<lambda>(i, v) b. b[i := v]) (zip idx vals) a))"

text \<open>
  \<^verbatim>\<open>PrimalVEM.rhs\<close>. The assertion reads \<^verbatim>\<open>not (bool(bc is None) != bool(bc_val is None))\<close>:
  \<^verbatim>\<open>not\<close> binds weaker than \<^verbatim>\<open>!=\<close>.
\<close>

definition rhs :: "grid \<Rightarrow> dict \<Rightarrow> real \<Rightarrow> real list result" where
  "rhs g data bc_weight =
     bindE (lookup data ''param'') (\<lambda>pv. bindE (as_param pv) (\<lambda>param.
     let f = get_source param in
     if dim g = 0 then Inr f
     else
       let bc = get_bc param; bc_val = get_bc_val param in
       if (bc = None) \<noteq> (bc_val = None) then Inl AssertionError
       else bindE (ndof g) (\<lambda>n.
         let rhs = replicate n 0 in
         case bc of None \<Rightarrow> Inr rhs
         | Some b \<Rightarrow>
             if \<exists>d \<in> set (is_dir b). d then
               (let is_dir = np_where (is_dir b) in
                case bc_val of None \<Rightarrow> Inl TypeError
                | Some bv \<Rightarrow> bindE (np_take bv is_dir) (\<lambda>vals.
                    np_put rhs is_dir (map (\<lambda>v. bc_weight * v) vals)))
             else Inr rhs)))"

subsection \<open>Dense linear algebra\<close>

text \<open>The sum of \<open>f 0, \<dots>, f (n - 1)\<close>, as a loop adds them.\<close>

definition sum_range :: "nat \<Rightarrow> (nat \<Rightarrow> real) \<Rightarrow> real" where
  "sum_range n f = sum_list (map f [0 ..< n])"

text \<open>
  \<^verbatim>\<open>np.dot(A, B)\<close> for two-dimensional arrays whose inner sizes agree; the one call of the
  source where they may differ checks the shapes before it.
\<close>

definition dot :: "real array2 \<Rightarrow> real array2 \<Rightarrow> real array2" where
  "dot A B = \<lparr>nrows = nrows A, ncols = ncols B,
              elem = (\<lambda>i j. sum_range (ncols A) (\<lambda>k. elem A i k * elem B k j))\<rparr>"

definition transpose2 :: "real array2 \<Rightarrow> real array2" where
  "transpose2 A = \<lparr>nrows = ncols A, ncols = nrows A, elem = (\<lambda>i j. elem A j i)\<rparr>"

definition eye :: "nat \<Rightarrow> real array2" where
  "eye n = \<lparr>nrows = n, ncols = n, elem = (\<lambda>i j. if i = j then 1 else 0)\<rparr>"

definition add2 :: "real array2 \<Rightarrow> real array2 \<Rightarrow> real array2" where
  "add2 A B = \<lparr>nrows = nrows A, ncols = ncols A, elem = (\<lambda>i j. elem A i j + elem B i j)\<rparr>"

definition sub2 :: "real array2 \<Rightarrow> real array2 \<Rightarrow> real array2" where
  "sub2 A B = \<lparr>nrows = nrows A, ncols = ncols A, elem = (\<lambda>i j. elem A i j - elem B i j)\<rparr>"

text \<open>
  \<^verbatim>\<open>np.allclose(A, B)\<close> with the default tolerances \<open>rtol = 1e-5\<close> and \<open>atol = 1e-8\<close>, on
  finite entries.
\<close>

definition allclose :: "real array2 \<Rightarrow> real array2 \<Rightarrow> bool" where
  "allclose A B \<longleftrightarrow>
     list_all (\<lambda>i. list_all (\<lambda>j. isclose (elem A i j) (elem B i j) (1 / 100000) (1 / 100000000))
                          [0 ..< ncols A]) [0 ..< nrows A]"

text \<open>
  \<^verbatim>\<open>np.linalg.solve(G, F)\<close> in exact arithmetic: Gauss-Jordan elimination with LAPACK's
  choice of pivot, the first row of largest magnitude in the column. It raises
  \<^verbatim>\<open>LinAlgError\<close> when a column has no pivot, that is when \<open>G\<close> is singular.
\<close>

type_synonym entries = "nat \<Rightarrow> nat \<Rightarrow> real"

definition pivot_row :: "entries \<Rightarrow> nat \<Rightarrow> nat \<Rightarrow> nat option" where
  "pivot_row A n k =
     (case filter (\<lambda>p. A p k \<noteq> 0) [k ..< n] of [] \<Rightarrow> None
      | q # qs \<Rightarrow> Some (fold (\<lambda>p best. if \<bar>A best k\<bar> < \<bar>A p k\<bar> then p else best) qs q))"

definition swap_rows :: "nat \<Rightarrow> nat \<Rightarrow> entries \<Rightarrow> entries" where
  "swap_rows k p A = (\<lambda>i. if i = k then A p else if i = p then A k else A i)"

definition eliminate :: "nat \<Rightarrow> nat \<Rightarrow> entries \<times> entries \<Rightarrow> entries \<times> entries" where
  "eliminate k p AB =
     (let A1 = swap_rows k p (fst AB); B1 = swap_rows k p (snd AB); piv = A1 k k in
      (\<lambda>i j. if i = k then A1 k j / piv else A1 i j - A1 i k * (A1 k j / piv),
       \<lambda>i j. if i = k then B1 k j / piv else B1 i j - A1 i k * (B1 k j / piv)))"

text \<open>\<open>gauss_jordan n r\<close> clears the last \<open>r\<close> of the \<open>n\<close> columns, from the left.\<close>

fun gauss_jordan :: "nat \<Rightarrow> nat \<Rightarrow> entries \<times> entries \<Rightarrow> (entries \<times> entries) option" where
  "gauss_jordan n 0 AB = Some AB"
| "gauss_jordan n (Suc r) AB =
     (case pivot_row (fst AB) n (n - Suc r) of None \<Rightarrow> None
      | Some p \<Rightarrow> gauss_jordan n r (eliminate (n - Suc r) p AB))"

definition linalg_solve :: "real array2 \<Rightarrow> real array2 \<Rightarrow> real array2 result" where
  "linalg_solve G F =
     (if nrows G \<noteq> ncols G then Inl LinAlgError
      else if nrows F \<noteq> nrows G then Inl ValueError
      else case gauss_jordan (nrows G) (nrows G) (elem G, elem F) of
             None \<Rightarrow> Inl LinAlgError
           | Some AB \<Rightarrow> Inr \<lparr>nrows = nrows G, ncols = ncols F, elem = snd AB\<rparr>)"

subsection \<open>The local stiffness matrix\<close>

text \<open>
  \<^verbatim>\<open>PrimalVEM.stiffH1\<close>. \<open>mono k\<close> is the source's \<^verbatim>\<open>mono[k]\<close>: the constant one, then one
  scaled coordinate per axis. The permeability \<open>K\<close> is an argument that the body never
  reads.

  Two divisions by zero do not raise in numpy but make entries that are not finite, and
  \<^verbatim>\<open>np.allclose\<close> is then false: with no node, row 0 of \<open>G\<close> is \<open>0/0\<close>; with \<open>diam = 0\<close>, a
  positive dimension and a node, every entry of \<open>D\<close> past its first column is infinite or
  not a number, and so is an entry of \<open>F\<cdot>D\<close> or of \<open>G\<close> in each row past the first. Both
  are the assertion's failure in the model.
\<close>

definition mono :: "real list \<Rightarrow> real \<Rightarrow> nat \<Rightarrow> (nat \<Rightarrow> real) \<Rightarrow> real" where
  "mono c_center diam k pt = (if k = 0 then 1 else (pt (k - 1) - c_center ! (k - 1)) / diam)"

text \<open>The local arrays \<open>grad\<close>, \<open>D\<close>, \<open>Gtilde\<close>, \<open>G\<close>, \<open>prod\<close> and \<open>F\<close> of the source.\<close>

definition local_grad :: "nat \<Rightarrow> real \<Rightarrow> real array2" where
  "local_grad d diam = \<lparr>nrows = d + 1, ncols = d,
       elem = (\<lambda>i j. if i = 0 then 0 else (if i - 1 = j then 1 else 0) / diam)\<rparr>"

definition local_D :: "real list \<Rightarrow> real \<Rightarrow> real array2 \<Rightarrow> real array2" where
  "local_D c_center diam coord = \<lparr>nrows = ncols coord, ncols = nrows coord + 1,
       elem = (\<lambda>n k. mono c_center diam k (\<lambda>i. elem coord i n))\<rparr>"

definition local_Gtilde :: "nat \<Rightarrow> real \<Rightarrow> real \<Rightarrow> real array2" where
  "local_Gtilde d c_volume diam = \<lparr>nrows = d + 1, ncols = d + 1,
       elem = (\<lambda>i j. if 1 \<le> i \<and> 1 \<le> j
                      then sum_range d (\<lambda>k. elem (local_grad d diam) i k * elem (local_grad d diam) j k)
                           * c_volume
                      else 0)\<rparr>"

definition local_G :: "real list \<Rightarrow> real \<Rightarrow> real \<Rightarrow> real array2 \<Rightarrow> real array2" where
  "local_G c_center c_volume diam coord =
     (let Gtilde = local_Gtilde (nrows coord) c_volume diam; D = local_D c_center diam coord in
      Gtilde\<lparr>elem := (\<lambda>i j. if i = 0 then sum_range (ncols coord) (\<lambda>n. elem D n j) / real (ncols coord)
                             else elem Gtilde i j)\<rparr>)"

definition local_prod :: "real array2 \<Rightarrow> real \<Rightarrow> nat \<Rightarrow> real array2" where
  "local_prod normals diam d = \<lparr>nrows = d, ncols = ncols normals,
       elem = (\<lambda>i f. sum_range d (\<lambda>k. elem (local_grad d diam) (i + 1) k * elem normals k f)
                        / power_int 2 (int d - 1))\<rparr>"

definition local_F :: "real array2 \<Rightarrow> real \<Rightarrow> real array2 \<Rightarrow> bool array2 \<Rightarrow> real array2" where
  "local_F normals diam coord node_faces =
     (let prod = local_prod normals diam (nrows coord) in
      \<lparr>nrows = nrows coord + 1, ncols = ncols coord,
       elem = (\<lambda>i j. if i = 0 then 1 / real (ncols coord)
                      else sum_list (map (\<lambda>f. elem prod (i - 1) f)
                             (filter (\<lambda>f. elem node_faces j f) [0 ..< ncols prod])))\<rparr>)"

definition stiffH1 ::
  "real array2 \<Rightarrow> real list \<Rightarrow> real \<Rightarrow> real array2 \<Rightarrow> real \<Rightarrow> real array2 \<Rightarrow> bool array2
     \<Rightarrow> real array2 result" where
  "stiffH1 K c_center c_volume normals diam coord node_faces =
     (let d = nrows coord; num_nodes = ncols coord in
      if 0 < num_nodes \<and> length c_center < d then Inl IndexError
      else
      let D = local_D c_center diam coord;
          Gtilde = local_Gtilde d c_volume diam;
          G = local_G c_center c_volume diam coord
      in
      if nrows normals \<noteq> d then Inl ValueError
      else if 1 \<le> d \<and> 0 < num_nodes
           \<and> (nrows node_faces < num_nodes \<or> ncols node_faces \<noteq> ncols normals) then Inl IndexError
      else
      let F = local_F normals diam coord node_faces in
      if num_nodes = 0 \<or> (diam = 0 \<and> 1 \<le> d) \<or> \<not> allclose G (dot F D) then Inl AssertionError
      else
      bindE (linalg_solve G F) (\<lambda>Pi_s.
      let I_Pi = sub2 (eye num_nodes) (dot D Pi_s) in
      Inr (add2 (dot (transpose2 Pi_s) (dot Gtilde Pi_s)) (dot (transpose2 I_Pi) I_Pi))))"

subsection \<open>Assembly of the global matrix\<close>

text \<open>\<^verbatim>\<open>a[i]\<close>, \<^verbatim>\<open>a[lo:hi]\<close>, \<^verbatim>\<open>A[:, c]\<close> and \<^verbatim>\<open>A[:, idx]\<close>.\<close>

definition np_get :: "'a list \<Rightarrow> nat \<Rightarrow> 'a result" where
  "np_get a i = (if i < length a then Inr (a ! i) else Inl IndexError)"

definition np_slice :: "'a list \<Rightarrow> nat \<Rightarrow> nat \<Rightarrow> 'a list" where
  "np_slice a lo hi = take (hi - lo) (drop lo a)"

definition col_of :: "real array2 \<Rightarrow> nat \<Rightarrow> real list result" where
  "col_of A c = (if c < ncols A then Inr (map (\<lambda>i. elem A i c) [0 ..< nrows A])
                 else Inl IndexError)"

definition cols_of :: "real array2 \<Rightarrow> nat list \<Rightarrow> real array2 result" where
  "cols_of A idx = (if \<exists>c \<in> set idx. ncols A \<le> c then Inl IndexError
                    else Inr \<lparr>nrows = nrows A, ncols = length idx,
                              elem = (\<lambda>i j. elem A i (idx ! j))\<rparr>)"

text \<open>
  \<^verbatim>\<open>np.argsort\<close>: the positions in ascending order of their keys. Equal keys keep their
  order here; numpy's default sort need not keep it, which reorders the faces of a cell
  and their signs together.
\<close>

definition argsort :: "nat list \<Rightarrow> nat list" where
  "argsort xs = map snd (sort_key fst (zip xs [0 ..< length xs]))"

text \<open>A list comprehension whose body can raise.\<close>

fun mapE :: "('a \<Rightarrow> 'b result) \<Rightarrow> 'a list \<Rightarrow> 'b list result" where
  "mapE f [] = Inr []"
| "mapE f (x # xs) = bindE (f x) (\<lambda>y. bindE (mapE f xs) (\<lambda>ys. Inr (y # ys)))"

text \<open>
  The value of \<^verbatim>\<open>cg.map_grid(g)\<close>, a function outside the sources: cell centres, face
  normals and node coordinates in the reference frame. \<open>rotate_perm\<close> is what
  \<^verbatim>\<open>k.rotate(R)\<close> and the two \<^verbatim>\<open>np.delete\<close> make of a copy of the permeability, for the \<open>R\<close>
  and \<open>dim\<close> of the same call.
\<close>

record mapped_grid =
  c_centers :: "real array2"
  f_normals :: "real array2"
  node_coords :: "real array2"
  rotate_perm :: "array3 \<Rightarrow> array3"

text \<open>
  The inner loop over the faces of a cell: the local numbers of the nodes of face \<open>f\<close>.
\<close>

definition face_local_nodes :: "grid \<Rightarrow> nat list \<Rightarrow> (nat \<Rightarrow> nat option) \<Rightarrow> nat \<Rightarrow> nat list result" where
  "face_local_nodes g nodes_fn nodes_map f =
     bindE (np_get (indptr (face_nodes g)) f) (\<lambda>lo.
     bindE (np_get (indptr (face_nodes g)) (f + 1)) (\<lambda>hi.
     mapE (\<lambda>n. case nodes_map n of None \<Rightarrow> Inl KeyError | Some i \<Rightarrow> Inr i)
          (np_slice nodes_fn lo hi)))"

text \<open>
  The body of the loop over the cells: the entries \<open>(I, J, dataIJ)\<close> that cell \<open>c\<close> adds.
\<close>

definition cell_triplets ::
  "grid \<Rightarrow> mapped_grid \<Rightarrow> real list \<Rightarrow> array3 \<Rightarrow> nat list \<Rightarrow> real list \<Rightarrow> nat list \<Rightarrow> nat list
     \<Rightarrow> nat \<Rightarrow> (nat \<times> nat \<times> real) list result" where
  "cell_triplets g mg a k faces sign nodes nodes_fn c =
     bindE (np_get (indptr (cell_faces g)) c) (\<lambda>lo.
     bindE (np_get (indptr (cell_faces g)) (c + 1)) (\<lambda>hi.
     let faces_loc = np_slice faces lo hi; sign_loc = np_slice sign lo hi in
     bindE (cols_of (f_normals mg) faces_loc) (\<lambda>fnl.
     let normals = fnl\<lparr>elem := (\<lambda>i j. sign_loc ! j * elem fnl i j)\<rparr> in
     bindE (np_get (indptr (cell_nodes g)) c) (\<lambda>lo.
     bindE (np_get (indptr (cell_nodes g)) (c + 1)) (\<lambda>hi.
     let nodes_loc = np_slice nodes lo hi;
         nodes_map = map_of (rev (zip nodes_loc [0 ..< length nodes_loc])) in
     bindE (mapE (face_local_nodes g nodes_fn nodes_map) faces_loc) (\<lambda>nodes_l.
     let node_faces = \<lparr>nrows = length nodes_loc, ncols = length faces_loc,
                        elem = (\<lambda>i f_loc. i \<in> set (nodes_l ! f_loc))\<rparr> in
     bindE (np_get a c) (\<lambda>ac.
     if snd (snd (shape3 k)) \<le> c then Inl IndexError
     else
     let K = \<lparr>nrows = min (dim g) (fst (shape3 k)), ncols = min (dim g) (fst (snd (shape3 k))),
               elem = (\<lambda>i j. ac * elem3 k i j c)\<rparr> in
     bindE (col_of (c_centers mg) c) (\<lambda>c_center.
     bindE (np_get (cell_volumes g) c) (\<lambda>c_volume.
     bindE (np_get (cell_diameters g) c) (\<lambda>diam.
     bindE (cols_of (node_coords mg) nodes_loc) (\<lambda>coord.
     bindE (stiffH1 K c_center c_volume normals diam coord node_faces) (\<lambda>A.
     Inr (concat (map (\<lambda>p. map (\<lambda>q. (nodes_loc ! p, nodes_loc ! q, elem A p q))
                               [0 ..< length nodes_loc]) [0 ..< length nodes_loc]))))))))))))))"

text \<open>
  The loop fills the arrays \<open>I\<close>, \<open>J\<close> and \<open>dataIJ\<close> of \<open>sz\<close> entries (the source's
  \<^verbatim>\<open>size\<close>) from the left; a
  cell that does not fit raises.
\<close>

fun cell_loop ::
  "(nat \<Rightarrow> (nat \<times> nat \<times> real) list result) \<Rightarrow> nat \<Rightarrow> nat list \<Rightarrow> (nat \<times> nat \<times> real) list
     \<Rightarrow> (nat \<times> nat \<times> real) list result" where
  "cell_loop body sz [] acc = Inr acc"
| "cell_loop body sz (c # cs) acc =
     bindE (body c) (\<lambda>t. if sz < length acc + length t then Inl ValueError
                          else cell_loop body sz cs (acc @ t))"

text \<open>
  \<^verbatim>\<open>sps.csr_matrix((dataIJ, (I, J)))\<close>: the shape is read off the largest indices, and
  entries given twice add up.
\<close>

definition csr_matrix :: "(nat \<times> nat \<times> real) list \<Rightarrow> real array2 result" where
  "csr_matrix ts =
     (if ts = [] then Inl ValueError
      else Inr \<lparr>nrows = Suc (Max (set (map (\<lambda>(r, c, v). r) ts))),
                ncols = Suc (Max (set (map (\<lambda>(r, c, v). c) ts))),
                elem = (\<lambda>i j. sum_list (map (\<lambda>(r, c, v). v)
                                           (filter (\<lambda>(r, c, v). r = i \<and> c = j) ts)))\<rparr>)"

text \<open>
  \<^verbatim>\<open>PrimalVEM.matrix\<close> from its first line after the 0-d shortcut to the construction
  of \<open>M\<close>. Entries of the arrays made by \<^verbatim>\<open>np.empty\<close> that the loop does not fill hold
  arbitrary memory; the model gives that outcome the error \<open>Uninitialised\<close>.
\<close>

definition assemble :: "grid \<Rightarrow> dict \<Rightarrow> mapped_grid \<Rightarrow> parameters \<Rightarrow> real array2 result" where
  "assemble g data mg param =
     (let k = get_tensor param; a = get_aperture param;
          cf = sps_find (cell_faces g);
          index = argsort (map (\<lambda>(r, c, v). c) cf);
          faces = map (\<lambda>i. map (\<lambda>(r, c, v). r) cf ! i) index;
          sign = map (\<lambda>i. map (\<lambda>(r, c, v). v) cf ! i) index;
          nodes = find_rows (cell_nodes g);
          nodes_fn = find_rows (face_nodes g);
          is_tangential = (case data ''is_tangential'' of None \<Rightarrow> False
                           | Some PyNone \<Rightarrow> False | Some (PyBool b) \<Rightarrow> b | Some _ \<Rightarrow> True);
          k = (if \<not> is_tangential \<and> dim g < 3 then rotate_perm mg k else k);
          ip = indptr (cell_nodes g);
          sz = sum_list (map (\<lambda>(hi, lo). (hi - lo) ^ 2) (zip (tl ip) (butlast ip)))
      in
      bindE (cell_loop (cell_triplets g mg a k faces sign nodes nodes_fn) sz
               [0 ..< num_cells g] []) (\<lambda>ts.
      if length ts \<noteq> sz then Inl Uninitialised else csr_matrix ts))"

text \<open>\<^verbatim>\<open>sps.linalg.norm(M, np.inf)\<close>: the largest absolute row sum.\<close>

definition sps_norm_inf :: "real array2 \<Rightarrow> real result" where
  "sps_norm_inf M =
     (if nrows M = 0 then Inl ValueError
      else Inr (Max (set (map (\<lambda>i. sum_range (ncols M) (\<lambda>j. \<bar>elem M i j\<bar>)) [0 ..< nrows M]))))"

text \<open>
  The Dirichlet rows: \<^verbatim>\<open>M[is_dir, :] *= 0\<close> and \<^verbatim>\<open>M[is_dir, is_dir] = norm\<close>; \<open>weight\<close> is
  the source's \<^verbatim>\<open>norm\<close>.
\<close>

definition dirichlet :: "real array2 \<Rightarrow> boundary_condition option \<Rightarrow> real \<Rightarrow> real array2 result" where
  "dirichlet M bc weight =
     (case bc of None \<Rightarrow> Inr M
      | Some b \<Rightarrow>
          if \<exists>d \<in> set (is_dir b). d then
            (let is_dir = np_where (is_dir b) in
             if \<exists>i \<in> set is_dir. nrows M \<le> i then Inl IndexError
             else if \<exists>i \<in> set is_dir. ncols M \<le> i then Inl IndexError
             else Inr (M\<lparr>elem := (\<lambda>i j. if i \<in> set is_dir then (if i = j then weight else 0)
                                          else elem M i j)\<rparr>))
          else Inr M)"

text \<open>
  \<^verbatim>\<open>PrimalVEM.matrix\<close>. The second component is the weight, returned when \<open>bc_weight\<close>
  is set.
\<close>

definition matrix :: "grid \<Rightarrow> dict \<Rightarrow> mapped_grid \<Rightarrow> bool \<Rightarrow> (real array2 \<times> real option) result" where
  "matrix g data mg bc_weight =
     (if dim g = 0 then
        bindE (ndof g) (\<lambda>n.
        let M = \<lparr>nrows = n, ncols = n, elem = (\<lambda>i j. 0)\<rparr> in
        Inr (M, if bc_weight then Some 1 else None))
      else
        bindE (lookup data ''param'') (\<lambda>pv. bindE (as_param pv) (\<lambda>param.
        let bc = get_bc param in
        bindE (assemble g data mg param) (\<lambda>M.
        bindE (if bc_weight then sps_norm_inf M else Inr 1) (\<lambda>weight.
        bindE (dirichlet M bc weight) (\<lambda>M.
        Inr (M, if bc_weight then Some weight else None)))))))"

text \<open>\<^verbatim>\<open>PrimalVEM.matrix_rhs\<close>.\<close>

definition PrimalVEM_matrix_rhs :: "grid \<Rightarrow> dict \<Rightarrow> mapped_grid \<Rightarrow> (real array2 \<times> real list) result" where
  "PrimalVEM_matrix_rhs g data mg =
     bindE (matrix g data mg True) (\<lambda>(M, w).
     case w of None \<Rightarrow> Inl TypeError
     | Some bc_weight \<Rightarrow> bindE (rhs g data bc_weight) (\<lambda>b. Inr (M, b)))"

section \<open>Notions for stating and proving the properties\<close>

text \<open>
  The assertion of \<open>stiffH1\<close> with no tolerance: the two arrays agree entry by entry.
\<close>

definition exactly_equal :: "real array2 \<Rightarrow> real array2 \<Rightarrow> bool" where
  "exactly_equal A B \<longleftrightarrow>
     list_all (\<lambda>i. list_all (\<lambda>j. elem A i j = elem B i j) [0 ..< ncols A]) [0 ..< nrows A]"

text \<open>
  The same for the first columns alone: the column of \<open>F\<cdot>D\<close> that belongs to the constant
  monomial.
\<close>

definition first_columns_equal :: "real array2 \<Rightarrow> real array2 \<Rightarrow> bool" where
  "first_columns_equal A B \<longleftrightarrow> list_all (\<lambda>i. elem A i 0 = elem B i 0) [0 ..< nrows A]"

text \<open>
  The product of a matrix with a vector, and the quadratic form \<open>v\<^sup>T A v\<close>; a vector over the
  nodes of a cell is a function on their local numbers.
\<close>

definition matvec :: "real array2 \<Rightarrow> (nat \<Rightarrow> real) \<Rightarrow> nat \<Rightarrow> real" where
  "matvec A v i = sum_range (ncols A) (\<lambda>j. elem A i j * v j)"

definition quadratic :: "real array2 \<Rightarrow> (nat \<Rightarrow> real) \<Rightarrow> real" where
  "quadratic A v = sum_range (nrows A) (\<lambda>i. v i * matvec A v i)"

text \<open>
  \<open>X\<close> solves the system \<open>A X = B\<close> of \<open>n\<close> equations, column by column; and the first \<open>k\<close>
  columns of \<open>A\<close> are those of the unit matrix.
\<close>

definition solves :: "nat \<Rightarrow> entries \<Rightarrow> entries \<Rightarrow> entries \<Rightarrow> bool" where
  "solves n A B X \<longleftrightarrow> (\<forall>i<n. \<forall>j. (\<Sum>k<n. A i k * X k j) = B i j)"

definition unit_cols :: "nat \<Rightarrow> nat \<Rightarrow> entries \<Rightarrow> bool" where
  "unit_cols n k A \<longleftrightarrow> (\<forall>i<n. \<forall>j<k. A i j = (if i = j then 1 else 0))"

section \<open>Example grids and data\<close>

text \<open>
  A one-dimensional grid of a single cell between two faces, and a zero-dimensional grid:
  one point cell without faces. In one dimension a face is a node.
\<close>

definition segment :: grid where
  "segment = \<lparr>dim = 1, num_cells = 1, num_faces = 2, num_nodes = 2,
      cell_faces = \<lparr>shape0 = 2, shape1 = 1, indptr = [0, 2], indices = [0, 1], stored = [-1, 1]\<rparr>,
      face_nodes = \<lparr>shape0 = 2, shape1 = 2, indptr = [0, 1, 2], indices = [0, 1], stored = [1, 1]\<rparr>,
      cell_nodes = \<lparr>shape0 = 2, shape1 = 1, indptr = [0, 2], indices = [0, 1], stored = [1, 1]\<rparr>,
      face_areas = [1, 1], cell_volumes = [1], cell_diameters = [1], isinstance_Grid = True\<rparr>"

definition point :: grid where
  "point = \<lparr>dim = 0, num_cells = 1, num_faces = 0, num_nodes = 1,
      cell_faces = \<lparr>shape0 = 0, shape1 = 1, indptr = [0, 0], indices = [], stored = []\<rparr>,
      face_nodes = \<lparr>shape0 = 1, shape1 = 0, indptr = [0], indices = [], stored = []\<rparr>,
      cell_nodes = \<lparr>shape0 = 1, shape1 = 1, indptr = [0, 1], indices = [0], stored = [1]\<rparr>,
      face_areas = [], cell_volumes = [1], cell_diameters = [0], isinstance_Grid = True\<rparr>"

text \<open>
  Two segments that meet: face 1 of the first is matched with face 0 of the second, and
  the flux through face 1 is 2.
\<close>

definition pair_edge :: dict where
  "pair_edge = [''beta_n'' \<mapsto> Arr [0, 2],
     ''face_cells'' \<mapsto> Sparse \<lparr>shape0 = 2, shape1 = 2, indptr = [0, 1, 1], indices = [1],
                                 stored = [1]\<rparr>]"

text \<open>
  A line of two unit cells that is cut where it crosses the point: cell 0 lies between
  the faces 0 and 1, cell 1 between the faces 2 and 3, and the faces 1 and 2 are the two
  sides of the cut. Both are matched with the one cell of the point grid.
\<close>

definition split_line :: grid where
  "split_line = \<lparr>dim = 1, num_cells = 2, num_faces = 4, num_nodes = 4,
      cell_faces = \<lparr>shape0 = 4, shape1 = 2, indptr = [0, 2, 4], indices = [0, 1, 2, 3],
                     stored = [-1, 1, -1, 1]\<rparr>,
      face_nodes = \<lparr>shape0 = 4, shape1 = 4, indptr = [0, 1, 2, 3, 4], indices = [0, 1, 2, 3],
                     stored = [1, 1, 1, 1]\<rparr>,
      cell_nodes = \<lparr>shape0 = 4, shape1 = 2, indptr = [0, 2, 4], indices = [0, 1, 2, 3],
                     stored = [1, 1, 1, 1]\<rparr>,
      face_areas = [1, 1, 1, 1], cell_volumes = [1, 1], cell_diameters = [1, 1],
      isinstance_Grid = True\<rparr>"

definition junction_cells :: csc where
  "junction_cells = \<lparr>shape0 = 1, shape1 = 4, indptr = [0, 0, 1, 2, 2], indices = [0, 0],
      stored = [1, 1]\<rparr>"

definition junction_edge :: "real list \<Rightarrow> dict" where
  "junction_edge beta_n = [''beta_n'' \<mapsto> Arr beta_n, ''face_cells'' \<mapsto> Sparse junction_cells]"

text \<open>
  Parameters with boundary flags and no boundary values, and with values and no flags.
\<close>

definition unit_tensor :: "nat \<Rightarrow> array3" where
  "unit_tensor n = \<lparr>shape3 = (3, 3, n), elem3 = (\<lambda>i j c. if i = j then 1 else 0)\<rparr>"

definition flags_only :: parameters where
  "flags_only = \<lparr>get_tensor = unit_tensor 1, get_bc = Some \<lparr>is_dir = [True, False]\<rparr>,
      get_bc_val = None, get_aperture = [1], get_source = [3]\<rparr>"

definition values_only :: parameters where
  "values_only = \<lparr>get_tensor = unit_tensor 1, get_bc = None,
      get_bc_val = Some [5, 6], get_aperture = [1], get_source = [3]\<rparr>"

text \<open>
  Two unit cells on a line with nodes at 0, 1 and 2, Dirichlet conditions at both ends.
\<close>

definition line_grid :: grid where
  "line_grid = \<lparr>dim = 1, num_cells = 2, num_faces = 3, num_nodes = 3,
      cell_faces = \<lparr>shape0 = 3, shape1 = 2, indptr = [0, 2, 4], indices = [0, 1, 1, 2],
                     stored = [-1, 1, -1, 1]\<rparr>,
      face_nodes = \<lparr>shape0 = 3, shape1 = 3, indptr = [0, 1, 2, 3], indices = [0, 1, 2],
                     stored = [1, 1, 1]\<rparr>,
      cell_nodes = \<lparr>shape0 = 3, shape1 = 2, indptr = [0, 2, 4], indices = [0, 1, 1, 2],
                     stored = [1, 1, 1, 1]\<rparr>,
      face_areas = [1, 1, 1], cell_volumes = [1, 1], cell_diameters = [1, 1],
      isinstance_Grid = True\<rparr>"

definition line_mapped :: mapped_grid where
  "line_mapped = \<lparr>c_centers = of_rows [[1 / 2, 3 / 2]], f_normals = of_rows [[1, 1, 1]],
      node_coords = of_rows [[0, 1, 2]], rotate_perm = (\<lambda>k. k)\<rparr>"

definition line_param :: parameters where
  "line_param = \<lparr>get_tensor = unit_tensor 2,
      get_bc = Some \<lparr>is_dir = [True, False, True]\<rparr>, get_bc_val = Some [5, 0, 7],
      get_aperture = [1, 1], get_source = [0, 0, 0]\<rparr>"

definition line_data :: dict where
  "line_data = [''param'' \<mapsto> Param line_param]"

text \<open>
  The unit interval as a cell: nodes at 0 and 1, centre 1/2, volume and diameter 1, each
  node its own face. Its outward normals are \<open>-1\<close> and \<open>1\<close>; \<open>drifted_normals\<close> are off by
  \<open>10\<^sup>-\<^sup>9\<close>, as rounding makes them; \<open>inward_normals\<close> point the wrong way.
\<close>

definition unit_K :: "real array2" where "unit_K = of_rows [[1]]"
definition unit_coord :: "real array2" where "unit_coord = of_rows [[0, 1]]"
definition outward_normals :: "real array2" where "outward_normals = of_rows [[- 1, 1]]"
definition drifted_normals :: "real array2" where
  "drifted_normals = of_rows [[- 1, 1 + 1 / 1000000000]]"
definition inward_normals :: "real array2" where "inward_normals = of_rows [[1, - 1]]"
definition own_faces :: "bool array2" where
  "own_faces = of_rows [[True, False], [False, True]]"

section \<open>Properties\<close>

subsection \<open>The example matrices are well formed\<close>

lemma example_matrices_well_formed:
  "csc_ok (cell_faces segment) \<and> csc_ok (face_nodes segment) \<and> csc_ok (cell_nodes segment)
   \<and> csc_ok (cell_faces point) \<and> csc_ok (face_nodes point) \<and> csc_ok (cell_nodes point)
   \<and> csc_ok (cell_faces split_line) \<and> csc_ok (face_nodes split_line)
   \<and> csc_ok (cell_nodes split_line)
   \<and> csc_ok (cell_faces line_grid) \<and> csc_ok (face_nodes line_grid) \<and> csc_ok (cell_nodes line_grid)
   \<and> csc_ok junction_cells"
  by (simp add: csc_ok_def segment_def point_def split_line_def line_grid_def junction_cells_def)

subsection \<open>Results that may be errors\<close>

lemma bindE_Inr [simp]: "bindE (Inr x) f = f x"
  by (simp add: bindE_def)

lemma bindE_Inl [simp]: "bindE (Inl e) f = Inl e"
  by (simp add: bindE_def)

lemma bindE_eq_Inr: "bindE m f = Inr y \<longleftrightarrow> (\<exists>x. m = Inr x \<and> f x = Inr y)"
  by (cases m) simp_all

lemma lookup_Inr: "lookup d k = Inr v \<longleftrightarrow> d k = Some v"
  by (simp add: lookup_def split: option.splits)

lemma as_array_Inr: "as_array v = Inr xs \<longleftrightarrow> v = Arr xs"
  by (simp add: as_array_def split: pyval.splits)

lemma as_sparse_Inr: "as_sparse v = Inr A \<longleftrightarrow> v = Sparse A"
  by (simp add: as_sparse_def split: pyval.splits)

lemma as_param_Inr: "as_param v = Inr p \<longleftrightarrow> v = Param p"
  by (simp add: as_param_def split: pyval.splits)

lemma np_take_Inr:
  assumes "np_take a idx = Inr ys"
  shows "ys = map (\<lambda>i. a ! i) idx" and "\<forall>i \<in> set idx. i < length a"
  using assms by (auto simp: np_take_def split: if_splits)

lemma np_put_Inr:
  assumes "np_put a idx vals = Inr b"
  shows "b = fold (\<lambda>(i, v) b. b[i := v]) (zip idx vals) a" and "\<forall>i \<in> set idx. i < length a"
  using assms by (auto simp: np_put_def split: if_splits)

lemma add_at_Inr:
  assumes "add_at a idx vals = Inr b" and "length vals = length idx"
  shows "b = add_each a (zip idx vals) \<and> (\<forall>i \<in> set idx. i < length a)"
  using assms by (auto simp: add_at_def split: if_splits)

lemma coo_matrix_Inr:
  assumes "coo_matrix vals rs cs shp = Inr M"
  shows "length rs = length vals" and "length cs = length vals"
    and "elem M i j = sum_list (map (\<lambda>(r, c, v). v)
                           (filter (\<lambda>(r, c, v). r = i \<and> c = j) (zip rs (zip cs vals))))"
  using assms by (auto simp: coo_matrix_def split: if_splits)

subsection \<open>The time step of the coupling\<close>

lemma isclose_zero: "isclose 0 b (1 / 100000) 0 \<longleftrightarrow> b = 0"
  by (auto simp: isclose_def)

text \<open>
  Claim C6. When the flux is zero on every matched face of the higher grid, \<open>cfl\<close> returns
  positive infinity and raises nothing. The flux array holds an entry for each matched
  face.
\<close>

theorem cfl_zero_flux:
  assumes "data_edge ''beta_n'' = Some (Arr beta_n)"
    and "data_edge ''face_cells'' = Some (Sparse face_cells)"
    and "\<forall>f \<in> set (find_cols face_cells). f < length beta_n \<and> beta_n ! f = 0"
  shows "cfl g_h g_l data_h data_l data_edge = Inr PosInf"
proof -
  define bf where "bf = map (\<lambda>i. beta_n ! i) (find_cols face_cells)"
  have take: "np_take beta_n (find_cols face_cells) = Inr bf"
    using assms(3) by (auto simp: np_take_def bf_def)
  have zero: "\<forall>b \<in> set bf. b = 0"
    using assms(3) by (auto simp: bf_def)
  have none: "(\<exists>b \<in> set (map (\<lambda>b. \<not> isclose 0 b (1 / 100000) 0) bf). b) \<longleftrightarrow> False"
    using zero by (simp add: isclose_zero)
  show ?thesis
    using assms(1,2) take
    by (simp add: cfl_def lookup_def as_sparse_def as_array_def Let_def none del: set_map)
qed

theorem cfl_zero_flux_witness:
  "cfl split_line point Map.empty Map.empty (junction_edge [5, 0, 0, 7]) = Inr PosInf"
proof (rule cfl_zero_flux)
  show "junction_edge [5, 0, 0, 7] ''beta_n'' = Some (Arr [5, 0, 0, 7])"
    by (simp add: junction_edge_def)
  show "junction_edge [5, 0, 0, 7] ''face_cells'' = Some (Sparse junction_cells)"
    by (simp add: junction_edge_def)
  show "\<forall>f \<in> set (find_cols junction_cells).
          f < length [5, 0, 0, 7 :: real] \<and> [5, 0, 0, 7 :: real] ! f = 0"
    by code_simp
qed

text \<open>
  Claim C5. The split line has flux 0 through face 1 and flux 2 through face 2, the two
  faces matched with the point. The claim gives the time step
  \<open>(0.5 * 1 / 1) / \<bar>2 / (1 * 1)\<bar> * 1 = 1/4\<close> of face 2. The code drops face 1, finds the one
  cell of the face that is left and applies the mask of length two to that array of
  length one, which raises.
\<close>

theorem cfl_mixed_flux_raises:
  "cfl split_line point Map.empty Map.empty (junction_edge [0, 0, 2, 0]) = Inl IndexError"
  by code_simp

text \<open>With no zero among the fluxes the mask keeps every face, and the minimum comes out.\<close>

lemma cfl_nonzero_flux_example:
  "cfl split_line point Map.empty Map.empty (junction_edge [0, 1, 2, 0]) = Inr (Finite (1 / 4))"
  by code_simp

text \<open>
  The failure does not depend on the example: whenever some matched face has zero flux
  and another has not, and every matched face belongs to one cell of the higher grid (it
  is a boundary face), the second mask raises.
\<close>

lemma length_find_rows_cols: "length (find_rows A) = length (find_cols A)"
  by (simp add: find_rows_def find_cols_def)

lemma length_rows_nonzero_cols:
  assumes "rows_nonzero_cols A fs = Inr cs"
    and "\<forall>f \<in> set fs. length (filter (\<lambda>(r, c, v). r = f \<and> v \<noteq> 0) (coo_of_csc A)) = 1"
  shows "length cs = length fs"
proof -
  from assms(1) have cs: "cs = concat (map (\<lambda>f. map (\<lambda>(r, c, v). c)
                                   (filter (\<lambda>(r, c, v). r = f \<and> v \<noteq> 0) (coo_of_csc A))) fs)"
    by (auto simp: rows_nonzero_cols_def split: if_splits)
  have "length (concat (map (\<lambda>f. map (\<lambda>(r, c, v). c)
            (filter (\<lambda>(r, c, v). r = f \<and> v \<noteq> 0) (coo_of_csc A))) gs)) = length gs"
    if "set gs \<subseteq> set fs" for gs
    using that assms(2) by (induction gs) auto
  then show ?thesis
    by (simp add: cs)
qed

lemma length_filter_mask:
  assumes "length a = length m" and "\<not> (\<forall>b \<in> set m. b)"
  shows "length (map fst (filter snd (zip a m))) < length m"
proof -
  from assms(2) obtain k where k: "k < length m" "\<not> m ! k"
    by (auto simp: in_set_conv_nth)
  have "length (filter snd (zip a m)) < length (zip a m)"
  proof (rule length_filter_less)
    show "(a ! k, m ! k) \<in> set (zip a m)"
      using k assms(1) by (auto simp: set_zip)
    show "\<not> snd (a ! k, m ! k)"
      using k by simp
  qed
  with assms(1) show ?thesis by simp
qed

lemma cfl_mixed_flux_raises_always:
  assumes beta: "data_edge ''beta_n'' = Some (Arr beta_n)"
    and fc: "data_edge ''face_cells'' = Some (Sparse face_cells)"
    and inside: "\<forall>f \<in> set (find_cols face_cells). f < length beta_n \<and> f < shape0 (cell_faces g_h)"
    and zero: "\<exists>f \<in> set (find_cols face_cells). beta_n ! f = 0"
    and nonzero: "\<exists>f \<in> set (find_cols face_cells). beta_n ! f \<noteq> 0"
    and one_cell: "\<forall>f \<in> set (find_cols face_cells).
        length (filter (\<lambda>(r, c, v). r = f \<and> v \<noteq> 0) (coo_of_csc (cell_faces g_h))) = 1"
  shows "cfl g_h g_l data_h data_l data_edge = Inl IndexError"
proof -
  let ?fs = "find_cols face_cells"
  define bf where "bf = map (\<lambda>i. beta_n ! i) ?fs"
  define nz where "nz = map (\<lambda>b. \<not> isclose 0 b (1 / 100000) 0) bf"
  have take: "np_take beta_n ?fs = Inr bf"
    using inside by (auto simp: np_take_def bf_def)
  have nz: "nz = map (\<lambda>f. beta_n ! f \<noteq> 0) ?fs"
    by (simp add: nz_def bf_def isclose_zero)
  have len: "length nz = length ?fs"
    by (simp add: nz)
  have some: "(\<exists>b \<in> set nz. b) \<longleftrightarrow> True"
    using nonzero by (auto simp: nz)
  have notall: "\<not> (\<forall>b \<in> set nz. b)"
    using zero by (auto simp: nz)
  define fs' where "fs' = map fst (filter snd (zip ?fs nz))"
  define ls' where "ls' = map fst (filter snd (zip (find_rows face_cells) nz))"
  have m1: "np_mask (find_rows face_cells) nz = Inr ls'"
    by (simp add: np_mask_def len length_find_rows_cols ls'_def)
  have m2: "np_mask ?fs nz = Inr fs'"
    by (simp add: np_mask_def len fs'_def)
  have short: "length fs' < length nz"
    unfolding fs'_def using len notall by (intro length_filter_mask) simp_all
  have sub: "set fs' \<subseteq> set ?fs"
    by (auto simp: fs'_def dest: set_zip_leftD)
  with inside have "\<not> (\<exists>f \<in> set fs'. shape0 (cell_faces g_h) \<le> f)"
    by (auto simp: not_le)
  then obtain ch where ch: "rows_nonzero_cols (cell_faces g_h) fs' = Inr ch"
    by (simp add: rows_nonzero_cols_def)
  have "length ch = length fs'"
    using ch sub one_cell by (intro length_rows_nonzero_cols [where A = "cell_faces g_h"]) auto
  with short have m3: "np_mask ch nz = Inl IndexError"
    by (simp add: np_mask_def)
  show ?thesis
    using beta fc take
    by (simp add: cfl_def lookup_def as_sparse_def as_array_def Let_def
          nz_def [symmetric] some m1 m2 ch m3 del: set_map)
qed

subsection \<open>The coupling blocks\<close>

text \<open>
  Claim C1. Two segments of equal dimension, one matched pair of faces, flux 2. The flux
  of the higher side is \<open>+2\<close> and that of the lower side is \<open>-2\<close>, so the claim puts 2 on the
  diagonal of block \<open>(0,0)\<close> and 0 on that of block \<open>(1,1)\<close>. The code leaves block
  \<open>(0,0)\<close> zero and adds the flux of the higher side to block \<open>(1,1)\<close>.
\<close>

theorem equal_dim_diagonals_swapped:
  "map_sum id (\<lambda>cc. (elem (cc00 cc) 0 0, elem (cc11 cc) 0 0, elem (cc10 cc) 0 0, elem (cc01 cc) 0 0))
     (matrix_rhs segment segment Map.empty Map.empty pair_edge) = Inr (0, 2, - 2, 0)"
  by code_simp

text \<open>
  More generally, in the equal-dimension case block \<open>(0,0)\<close> is the zero matrix whatever
  the fluxes are.
\<close>

lemma equal_dim_block00_zero:
  assumes "dim g_h = dim g_l" and "matrix_rhs g_h g_l data_h data_l data_edge = Inr cc"
  shows "elem (cc00 cc) i j = 0"
proof -
  from assms obtain bv d00 d11 c10 c01 where
    eq: "matrix_rhs_equal_dim g_h g_l data_edge bv (create_block_matrix g_h g_l)
                = Inr (d00, d11, c10, c01)"
    and cc: "cc = \<lparr>cc00 = dia_matrix d00 (num_cells g_h), cc01 = c01, cc10 = c10,
                   cc11 = dia_matrix d11 (num_cells g_l)\<rparr>"
    by (auto simp: matrix_rhs_def bindE_eq_Inr lookup_Inr Let_def
          create_block_matrix_def split: if_splits)
  from eq have "d00 = replicate (num_cells g_h) 0"
    by (auto simp: matrix_rhs_equal_dim_def bindE_eq_Inr Let_def)
  then show ?thesis
    by (simp add: cc dia_matrix_def)
qed

text \<open>How \<^verbatim>\<open>np.add.at\<close> and \<^verbatim>\<open>coo_matrix\<close> add up what the matched pairs contribute.\<close>

lemma length_add_each: "length (add_each a ps) = length a"
  by (induction a ps rule: add_each.induct) simp_all

lemma add_each_by_second:
  assumes "length ls = length hs" and "length hs = length qs"
    and "\<forall>h \<in> set hs. h < length a" and "i < length a"
  shows "add_each a (zip hs (map f qs)) ! i
           = a ! i + sum_list (map (\<lambda>(l, h, q). f q) (filter (\<lambda>(l, h, q). h = i) (zip ls (zip hs qs))))"
  using assms
proof (induction ls hs qs arbitrary: a rule: list_induct3)
  case Nil
  then show ?case by simp
next
  case (Cons l ls h hs q qs)
  then show ?case by (simp add: nth_list_update)
qed

lemma add_each_by_first:
  assumes "length ls = length hs" and "length hs = length qs"
    and "\<forall>l \<in> set ls. l < length a" and "i < length a"
  shows "add_each a (zip ls (map f qs)) ! i
           = a ! i + sum_list (map (\<lambda>(l, h, q). f q) (filter (\<lambda>(l, h, q). l = i) (zip ls (zip hs qs))))"
  using assms
proof (induction ls hs qs arbitrary: a rule: list_induct3)
  case Nil
  then show ?case by simp
next
  case (Cons l ls h hs q qs)
  then show ?case by (simp add: nth_list_update)
qed

lemma coo_sum_rows_first:
  assumes "length ls = length hs" and "length hs = length qs"
  shows "sum_list (map (\<lambda>(r, c, v). v) (filter (\<lambda>(r, c, v). r = i \<and> c = j) (zip ls (zip hs (map f qs)))))
           = sum_list (map (\<lambda>(l, h, q). f q) (filter (\<lambda>(l, h, q). l = i \<and> h = j) (zip ls (zip hs qs))))"
  using assms by (induction ls hs qs rule: list_induct3) simp_all

lemma coo_sum_rows_second:
  assumes "length ls = length hs" and "length hs = length qs"
  shows "sum_list (map (\<lambda>(r, c, v). v) (filter (\<lambda>(r, c, v). r = i \<and> c = j) (zip hs (zip ls (map f qs)))))
           = sum_list (map (\<lambda>(l, h, q). f q) (filter (\<lambda>(l, h, q). h = i \<and> l = j) (zip ls (zip hs qs))))"
  using assms by (induction ls hs qs rule: list_induct3) simp_all

lemma pair_sum_none:
  assumes "\<forall>(l, h, q) \<in> set ps. \<not> P l h q"
  shows "sum_list (map f (filter (\<lambda>(l, h, q). P l h q) ps)) = 0"
proof -
  have "filter (\<lambda>(l, h, q). P l h q) ps = []"
    using assms by (auto simp: filter_empty_conv)
  then show ?thesis by simp
qed

lemma clip_signs:
  "sgn (max b 0) * b = (if 0 < b then b else 0)"
  "sgn (min b 0) * b = (if b < 0 then \<bar>b\<bar> else 0)"
  "- max b 0 = (if 0 < b then - b else 0)"
  "min b 0 = (if b < 0 then b else 0)"
  for b :: real
  by (auto simp: max_def min_def sgn_if)

lemma in_pairsD:
  assumes "(l, h, q) \<in> set (zip ls (zip hs qs))"
  shows "l \<in> set ls" and "h \<in> set hs" and "q \<in> set qs"
  using assms by (meson set_zip_leftD set_zip_rightD)+

text \<open>
  Claim C4. In the dimension-adjacent case let \<open>pairs\<close> be the matched pairs \<open>(l, h, q)\<close>:
  the cell \<open>l\<close> of the lower grid, the cell \<open>h\<close> of the matched face of the higher grid and
  the flux \<open>q\<close> through that face, signed by the orientation of the face in the higher
  grid. Every entry of the four blocks is the sum of what the pairs at that entry
  contribute. A pair with \<open>q > 0\<close> contributes \<open>q\<close> to the diagonal of the higher cell and
  \<open>-q\<close> to the entry (lower, higher); a pair with \<open>q < 0\<close> contributes \<open>\<bar>q\<bar>\<close> to the diagonal
  of the lower cell and \<open>q\<close> to the entry (higher, lower); it contributes nothing else. So
  each off-diagonal contribution has the magnitude of the diagonal contribution on the
  other side.
\<close>

theorem adjacent_blocks_balance:
  assumes "dim g_h \<noteq> dim g_l"
    and "matrix_rhs g_h g_l data_h data_l data_edge = Inr cc"
  shows "\<exists>beta_n face_cells q cells_h.
      data_edge ''beta_n'' = Some (Arr beta_n)
    \<and> data_edge ''face_cells'' = Some (Sparse face_cells)
    \<and> signed_flux (cell_faces g_h) (find_cols face_cells) (Arr beta_n) (find_cols face_cells) = Inr q
    \<and> rows_nonzero_cols (cell_faces g_h) (find_cols face_cells) = Inr cells_h
    \<and> length cells_h = length (find_rows face_cells) \<and> length q = length (find_rows face_cells)
    \<and> (let pairs = zip (find_rows face_cells) (zip cells_h q) in
         (\<forall>i j. elem (cc00 cc) i j =
            (if i = j then sum_list (map (\<lambda>(l, h, q). if 0 < q then q else 0)
                                         (filter (\<lambda>(l, h, q). h = i) pairs)) else 0))
       \<and> (\<forall>i j. elem (cc10 cc) i j =
            sum_list (map (\<lambda>(l, h, q). if 0 < q then - q else 0)
                          (filter (\<lambda>(l, h, q). l = i \<and> h = j) pairs)))
       \<and> (\<forall>i j. elem (cc11 cc) i j =
            (if i = j then sum_list (map (\<lambda>(l, h, q). if q < 0 then \<bar>q\<bar> else 0)
                                         (filter (\<lambda>(l, h, q). l = i) pairs)) else 0))
       \<and> (\<forall>i j. elem (cc01 cc) i j =
            sum_list (map (\<lambda>(l, h, q). if q < 0 then q else 0)
                          (filter (\<lambda>(l, h, q). h = i \<and> l = j) pairs))))"
proof -
  from assms obtain bv d00 d11 c10 c01 where
    bv: "data_edge ''beta_n'' = Some bv"
    and adj: "matrix_rhs_adjacent g_h g_l data_edge bv (create_block_matrix g_h g_l)
                = Inr (d00, d11, c10, c01)"
    and cc: "cc = \<lparr>cc00 = dia_matrix d00 (num_cells g_h), cc01 = c01, cc10 = c10,
                   cc11 = dia_matrix d11 (num_cells g_l)\<rparr>"
    by (auto simp: matrix_rhs_def bindE_eq_Inr lookup_Inr Let_def
          create_block_matrix_def split: if_splits)
  from adj obtain face_cells q cells_h where
    fc: "data_edge ''face_cells'' = Some (Sparse face_cells)"
    and q': "signed_flux (cell_faces g_h) (find_cols face_cells) bv (find_cols face_cells) = Inr q"
    and ch: "rows_nonzero_cols (cell_faces g_h) (find_cols face_cells) = Inr cells_h"
    and a11: "add_at (replicate (num_cells g_l) 0) (find_rows face_cells)
                (map (\<lambda>b. sgn (min b 0) * b) q) = Inr d11"
    and a00: "add_at (replicate (num_cells g_h) 0) cells_h (map (\<lambda>b. sgn (max b 0) * b) q) = Inr d00"
    and m10: "coo_matrix (map (\<lambda>b. - max b 0) q) (find_rows face_cells) cells_h
                (num_cells g_l, num_cells g_h) = Inr c10"
    and m01: "coo_matrix (map (\<lambda>b. min b 0) q) cells_h (find_rows face_cells)
                (num_cells g_h, num_cells g_l) = Inr c01"
    by (auto simp: matrix_rhs_adjacent_def bindE_eq_Inr lookup_Inr as_sparse_Inr Let_def
          create_block_matrix_def)
  from q' obtain beta_n where bvA: "bv = Arr beta_n"
    by (auto simp: signed_flux_def bindE_eq_Inr as_array_Inr)
  from bv bvA have beta: "data_edge ''beta_n'' = Some (Arr beta_n)"
    by simp
  from q' bvA
  have q: "signed_flux (cell_faces g_h) (find_cols face_cells) (Arr beta_n) (find_cols face_cells) = Inr q"
    by simp
  let ?ls = "find_rows face_cells"
  let ?ps = "zip ?ls (zip cells_h q)"
  from coo_matrix_Inr(1,2) [OF m10] have len: "length cells_h = length ?ls" "length q = length ?ls"
    by simp_all
  have e10: "elem c10 i j = sum_list (map (\<lambda>(l, h, q). if 0 < q then - q else 0)
                          (filter (\<lambda>(l, h, q). l = i \<and> h = j) ?ps))" for i j
  proof -
    show ?thesis
      unfolding coo_matrix_Inr(3) [OF m10] clip_signs(3)
      using len by (intro coo_sum_rows_first) simp_all
  qed
  have e01: "elem c01 i j = sum_list (map (\<lambda>(l, h, q). if q < 0 then q else 0)
                          (filter (\<lambda>(l, h, q). h = i \<and> l = j) ?ps))" for i j
  proof -
    show ?thesis
      unfolding coo_matrix_Inr(3) [OF m01] clip_signs(4)
      using len by (intro coo_sum_rows_second) simp_all
  qed
  from add_at_Inr [OF a00] len
  have d00: "d00 = add_each (replicate (num_cells g_h) 0) (zip cells_h (map (\<lambda>b. sgn (max b 0) * b) q))"
    and in_h: "\<forall>h \<in> set cells_h. h < num_cells g_h"
    by simp_all
  from add_at_Inr [OF a11] len
  have d11: "d11 = add_each (replicate (num_cells g_l) 0) (zip ?ls (map (\<lambda>b. sgn (min b 0) * b) q))"
    and in_l: "\<forall>l \<in> set ?ls. l < num_cells g_l"
    by simp_all
  have e00: "elem (dia_matrix d00 (num_cells g_h)) i j =
            (if i = j then sum_list (map (\<lambda>(l, h, q). if 0 < q then q else 0)
                                         (filter (\<lambda>(l, h, q). h = i) ?ps)) else 0)" for i j
  proof (cases "i < num_cells g_h")
    case True
    have "d00 ! i = replicate (num_cells g_h) 0 ! i + sum_list (map (\<lambda>(l, h, q). if 0 < q then q else 0)
                                         (filter (\<lambda>(l, h, q). h = i) ?ps))"
      unfolding d00 clip_signs(1) using in_h len True by (intro add_each_by_second) simp_all
    with True show ?thesis
      by (auto simp: dia_matrix_def d00 length_add_each)
  next
    case False
    with in_h have "\<forall>(l, h, q) \<in> set ?ps. \<not> h = i"
      by (auto dest: in_pairsD)
    then have "sum_list (map (\<lambda>(l, h, q). if 0 < q then q else 0)
                 (filter (\<lambda>(l, h, q). h = i) ?ps)) = 0"
      by (rule pair_sum_none)
    with False show ?thesis
      by (auto simp: dia_matrix_def)
  qed
  have e11: "elem (dia_matrix d11 (num_cells g_l)) i j =
            (if i = j then sum_list (map (\<lambda>(l, h, q). if q < 0 then \<bar>q\<bar> else 0)
                                         (filter (\<lambda>(l, h, q). l = i) ?ps)) else 0)" for i j
  proof (cases "i < num_cells g_l")
    case True
    have "d11 ! i = replicate (num_cells g_l) 0 ! i + sum_list (map (\<lambda>(l, h, q). if q < 0 then \<bar>q\<bar> else 0)
                                         (filter (\<lambda>(l, h, q). l = i) ?ps))"
      unfolding d11 clip_signs(2) using in_l len True by (intro add_each_by_first) simp_all
    with True show ?thesis
      by (auto simp: dia_matrix_def d11 length_add_each)
  next
    case False
    with in_l have "\<forall>(l, h, q) \<in> set ?ps. \<not> l = i"
      by (auto dest: in_pairsD)
    then have "sum_list (map (\<lambda>(l, h, q). if q < 0 then \<bar>q\<bar> else 0)
                 (filter (\<lambda>(l, h, q). l = i) ?ps)) = 0"
      by (rule pair_sum_none)
    with False show ?thesis
      by (auto simp: dia_matrix_def)
  qed
  show ?thesis
    using beta fc q ch len e00 e11 e10 e01
    by (intro exI [of _ beta_n] exI [of _ face_cells] exI [of _ q] exI [of _ cells_h])
       (simp add: cc Let_def)
qed

theorem adjacent_blocks_balance_witness:
  "\<exists>cc. matrix_rhs split_line point Map.empty Map.empty (junction_edge [0, 3, 2, 0]) = Inr cc
     \<and> elem (cc00 cc) 0 0 = 3 \<and> elem (cc10 cc) 0 0 = - 3
     \<and> elem (cc11 cc) 0 0 = 2 \<and> elem (cc01 cc) 1 0 = - 2"
proof -
  have "case matrix_rhs split_line point Map.empty Map.empty (junction_edge [0, 3, 2, 0]) of
          Inl e \<Rightarrow> False | Inr cc \<Rightarrow> True"
    by code_simp
  then obtain cc where
    cc: "matrix_rhs split_line point Map.empty Map.empty (junction_edge [0, 3, 2, 0]) = Inr cc"
    by (auto split: sum.splits)
  have dims: "dim split_line \<noteq> dim point"
    by (simp add: split_line_def point_def)
  have rows: "find_rows junction_cells = [0, 0]" and cols: "find_cols junction_cells = [1, 2]"
    by code_simp+
  have flux: "signed_flux (cell_faces split_line) [1, 2] (Arr [0, 3, 2, 0]) [1, 2] = Inr [3, - 2]"
    by code_simp
  have cells: "rows_nonzero_cols (cell_faces split_line) [1, 2] = Inr [0, 1]"
    by code_simp
  from adjacent_blocks_balance [OF dims cc] rows cols flux cells
  have "elem (cc00 cc) 0 0 = 3 \<and> elem (cc10 cc) 0 0 = - 3
     \<and> elem (cc11 cc) 0 0 = 2 \<and> elem (cc01 cc) 1 0 = - 2"
    by (auto simp: junction_edge_def Let_def)
  with cc show ?thesis by blast
qed

subsection \<open>The right-hand side\<close>

text \<open>
  Claim C10. On a grid of dimension 0, \<open>rhs\<close> returns the source term as it is, whatever the
  boundary flags and values are: the check that both or neither are there is never
  reached, so nothing is raised when only one of them is supplied.
\<close>

theorem rhs_dim0_returns_source:
  assumes "dim g = 0" and "data ''param'' = Some (Param p)"
  shows "rhs g data bc_weight = Inr (get_source p)"
  using assms by (simp add: rhs_def lookup_def as_param_def)

theorem rhs_dim0_returns_source_witness:
  "get_bc values_only = None \<and> get_bc_val values_only \<noteq> None
     \<and> rhs point [''param'' \<mapsto> Param values_only] 1 = Inr [3]"
  using rhs_dim0_returns_source [of point "[''param'' \<mapsto> Param values_only]" values_only 1]
  by (simp add: point_def values_only_def)

text \<open>
  Claim C8, as stated, fails on a grid of dimension 0: with flags and no values, \<open>rhs\<close>
  returns the source term.
\<close>

theorem rhs_mismatch_dim0_counterexample:
  "(get_bc flags_only = None) \<noteq> (get_bc_val flags_only = None)
     \<and> rhs point [''param'' \<mapsto> Param flags_only] 1 = Inr [3]"
  by (simp add: rhs_def lookup_def as_param_def point_def flags_only_def)

text \<open>
  Claim C8, amended. On a grid of positive dimension, a call of \<open>rhs\<close> whose parameters
  hold exactly one of the boundary flags and the boundary values fails with an assertion
  error.
\<close>

theorem rhs_mismatch_raises:
  assumes "0 < dim g" and "data ''param'' = Some (Param p)"
    and "(get_bc p = None) \<noteq> (get_bc_val p = None)"
  shows "rhs g data bc_weight = Inl AssertionError"
  using assms by (simp add: rhs_def lookup_def as_param_def Let_def)

theorem rhs_mismatch_raises_witness:
  "rhs segment [''param'' \<mapsto> Param flags_only] 1 = Inl AssertionError
     \<and> rhs segment [''param'' \<mapsto> Param values_only] 1 = Inl AssertionError"
  using rhs_mismatch_raises [of segment "[''param'' \<mapsto> Param flags_only]" flags_only 1]
    rhs_mismatch_raises [of segment "[''param'' \<mapsto> Param values_only]" values_only 1]
  by (simp add: segment_def flags_only_def values_only_def)

subsection \<open>The Dirichlet rows and their weight\<close>

text \<open>
  Claim C7. On a grid of positive dimension, when \<open>matrix\<close> is called with \<open>bc_weight\<close> set
  and returns, the weight it returns is the infinity norm of the matrix \<open>M0\<close> that the
  assembly produced, taken before the Dirichlet rows are written, and the rows are
  written with that weight. Called without \<open>bc_weight\<close> it returns no weight and writes
  the rows with weight 1.
\<close>

theorem matrix_weight_is_norm:
  assumes "0 < dim g"
  shows "(matrix g data mg True = Inr (M, w) \<longrightarrow>
            (\<exists>param M0 nrm. data ''param'' = Some (Param param)
               \<and> assemble g data mg param = Inr M0 \<and> sps_norm_inf M0 = Inr nrm
               \<and> w = Some nrm \<and> dirichlet M0 (get_bc param) nrm = Inr M))
       \<and> (matrix g data mg False = Inr (M', w') \<longrightarrow>
            (\<exists>param M0. data ''param'' = Some (Param param)
               \<and> assemble g data mg param = Inr M0
               \<and> w' = None \<and> dirichlet M0 (get_bc param) 1 = Inr M'))"
  using assms
  by (auto simp: matrix_def bindE_eq_Inr lookup_Inr as_param_Inr Let_def)

theorem matrix_weight_is_norm_witness:
  "\<exists>M M0 M'. matrix line_grid line_data line_mapped True = Inr (M, Some 4)
      \<and> assemble line_grid line_data line_mapped line_param = Inr M0
      \<and> sps_norm_inf M0 = Inr 4 \<and> dirichlet M0 (get_bc line_param) 4 = Inr M
      \<and> matrix line_grid line_data line_mapped False = Inr (M', None)
      \<and> dirichlet M0 (get_bc line_param) 1 = Inr M'"
proof -
  have "map_sum id snd (matrix line_grid line_data line_mapped True) = Inr (Some 4)"
    by code_simp
  then obtain M where M: "matrix line_grid line_data line_mapped True = Inr (M, Some 4)"
    by (cases "matrix line_grid line_data line_mapped True") auto
  have "map_sum id snd (matrix line_grid line_data line_mapped False) = Inr None"
    by code_simp
  then obtain M' where M': "matrix line_grid line_data line_mapped False = Inr (M', None)"
    by (cases "matrix line_grid line_data line_mapped False") auto
  have dim: "0 < dim line_grid"
    by (simp add: line_grid_def)
  have param: "line_data ''param'' = Some (Param p) \<longleftrightarrow> p = line_param" for p
    by (auto simp: line_data_def)
  from matrix_weight_is_norm [OF dim, of line_data line_mapped M "Some 4" M' None] M M'
  show ?thesis
    by (auto simp: param)
qed

text \<open>Writing through an index array without repetitions.\<close>

lemma in_np_where: "i \<in> set (np_where m) \<longleftrightarrow> i < length m \<and> m ! i"
  by (auto simp: np_where_def)

lemma distinct_np_where: "distinct (np_where m)"
  by (simp add: np_where_def)

lemma fold_put_other:
  assumes "i \<notin> set idx"
  shows "fold (\<lambda>(i, v) b. b[i := v]) (zip idx vals) a ! i = a ! i"
  using assms
proof (induction idx arbitrary: vals a)
  case Nil
  then show ?case by simp
next
  case (Cons x idx)
  then show ?case by (cases vals) simp_all
qed

lemma length_fold_put: "length (fold (\<lambda>(i, v) b. b[i := v]) ps a) = length a"
  by (induction ps arbitrary: a) auto

lemma fold_put_nth:
  assumes "distinct idx" and "length vals = length idx" and "\<forall>i \<in> set idx. i < length a"
    and "k < length idx"
  shows "fold (\<lambda>(i, v) b. b[i := v]) (zip idx vals) a ! (idx ! k) = vals ! k"
  using assms
proof (induction idx arbitrary: vals a k)
  case Nil
  then show ?case by simp
next
  case (Cons x idx)
  then obtain v vs where vals: "vals = v # vs"
    by (cases vals) auto
  show ?case
  proof (cases k)
    case 0
    with Cons.prems vals show ?thesis
      by (simp add: fold_put_other)
  next
    case (Suc k')
    with Cons.prems vals Cons.IH [of vs "a[x := v]" k'] show ?thesis
      by simp
  qed
qed

lemma dirichlet_Some_Inr:
  assumes "dirichlet M0 (Some bc) w = Inr M" and "\<exists>d \<in> set (is_dir bc). d"
  shows "elem M = (\<lambda>i j. if i \<in> set (np_where (is_dir bc)) then (if i = j then w else 0)
                          else elem M0 i j)"
proof -
  let ?idx = "np_where (is_dir bc)"
  have "dirichlet M0 (Some bc) w =
      (if \<exists>i \<in> set ?idx. nrows M0 \<le> i then Inl IndexError
       else if \<exists>i \<in> set ?idx. ncols M0 \<le> i then Inl IndexError
       else Inr (M0\<lparr>elem := (\<lambda>i j. if i \<in> set ?idx then (if i = j then w else 0)
                                          else elem M0 i j)\<rparr>))"
    using assms(2) by (simp only: dirichlet_def Let_def option.case if_True)
  with assms(1) have "Inr (M0\<lparr>elem := (\<lambda>i j. if i \<in> set ?idx then (if i = j then w else 0)
                                          else elem M0 i j)\<rparr>) = (Inr M :: real array2 result)"
    by (metis sum.distinct(1))
  then have "M = M0\<lparr>elem := (\<lambda>i j. if i \<in> set ?idx then (if i = j then w else 0)
                                          else elem M0 i j)\<rparr>"
    by (simp only: sum.inject)
  then show ?thesis by simp
qed


lemma rhs_dirichlet_Inr:
  assumes "rhs g data w = Inr b" and "0 < dim g"
    and "data ''param'' = Some (Param param)" and "get_bc param = Some bc"
    and "\<exists>d \<in> set (is_dir bc). d"
  shows "\<exists>bv n vals. get_bc_val param = Some bv
           \<and> np_take bv (np_where (is_dir bc)) = Inr vals
           \<and> np_put (replicate n (0::real)) (np_where (is_dir bc)) (map (\<lambda>v. w * v) vals) = Inr b"
proof (cases "get_bc_val param")
  case None
  with assms(1-4) show ?thesis
    by (simp add: rhs_def lookup_def as_param_def Let_def)
next
  case (Some bv)
  with assms have "\<exists>n. ndof g = Inr n \<and> (\<exists>vals. np_take bv (np_where (is_dir bc)) = Inr vals
      \<and> np_put (replicate n (0::real)) (np_where (is_dir bc)) (map (\<lambda>v. w * v) vals) = Inr b)"
    by (simp add: rhs_def lookup_def as_param_def Let_def bindE_eq_Inr)
  with Some show ?thesis by blast
qed

lemma matrix_dirichlet_Inr:
  assumes "matrix g data mg True = Inr (M, Some w)" and "0 < dim g"
    and "data ''param'' = Some (Param param)"
  shows "\<exists>M0. dirichlet M0 (get_bc param) w = Inr M"
proof -
  from assms have "\<exists>M0. assemble g data mg param = Inr M0
      \<and> (\<exists>nrm. sps_norm_inf M0 = Inr nrm \<and> (\<exists>M1. dirichlet M0 (get_bc param) nrm = Inr M1
            \<and> M1 = M \<and> nrm = w))"
    by (simp add: matrix_def lookup_def as_param_def Let_def bindE_eq_Inr)
  then show ?thesis by blast
qed

text \<open>
  Claim C3. On a grid of positive dimension, when \<open>matrix_rhs\<close> returns the matrix \<open>M\<close>
  and the right-hand side \<open>b\<close>, every node \<open>i\<close> flagged Dirichlet has a row of \<open>M\<close> that is
  zero off the diagonal, the weight \<open>w\<close> that \<open>matrix\<close> returned on the diagonal, and
  \<open>w\<close> times the boundary value of \<open>i\<close> in \<open>b\<close>.
\<close>

theorem dirichlet_rows_enforced:
  assumes "PrimalVEM_matrix_rhs g data mg = Inr (M, b)" and "0 < dim g"
    and "data ''param'' = Some (Param param)" and "get_bc param = Some bc"
    and "i < length (is_dir bc)" and "is_dir bc ! i"
  shows "\<exists>w bv. matrix g data mg True = Inr (M, Some w) \<and> get_bc_val param = Some bv
           \<and> i < length b \<and> i < length bv
           \<and> (\<forall>j. j \<noteq> i \<longrightarrow> elem M i j = 0) \<and> elem M i i = w \<and> b ! i = w * bv ! i"
proof -
  let ?idx = "np_where (is_dir bc)"
  from assms(1) have "\<exists>w. matrix g data mg True = Inr (M, Some w) \<and> rhs g data w = Inr b"
    by (auto simp: PrimalVEM_matrix_rhs_def bindE_eq_Inr split: option.splits)
  then obtain w where m: "matrix g data mg True = Inr (M, Some w)" and r: "rhs g data w = Inr b"
    by blast
  have any: "\<exists>d \<in> set (is_dir bc). d"
    using assms(5,6) nth_mem by blast
  have mem: "i \<in> set ?idx"
    using assms(5,6) by (simp add: in_np_where)
  from matrix_dirichlet_Inr [OF m assms(2,3)] assms(4)
  obtain M0 where "dirichlet M0 (Some bc) w = Inr M"
    by auto
  from dirichlet_Some_Inr [OF this any] mem
  have row: "elem M i j = (if i = j then w else 0)" for j
    by simp
  from rhs_dirichlet_Inr [OF r assms(2,3,4) any]
  obtain bv n vals where bv: "get_bc_val param = Some bv"
    and take: "np_take bv ?idx = Inr vals"
    and put: "np_put (replicate n (0::real)) ?idx (map (\<lambda>v. w * v) vals) = Inr b"
    by blast
  from take have vals: "vals = map (\<lambda>i. bv ! i) ?idx" and in_bv: "\<forall>i \<in> set ?idx. i < length bv"
    by (auto simp: np_take_def split: if_splits)
  from put have b: "b = fold (\<lambda>(i, v) b. b[i := v]) (zip ?idx (map (\<lambda>v. w * v) vals)) (replicate n 0)"
    and in_b: "\<forall>i \<in> set ?idx. i < n"
    by (auto simp: np_put_def split: if_splits)
  from mem obtain k where k: "k < length ?idx" "?idx ! k = i"
    by (auto simp: in_set_conv_nth)
  have "b ! (?idx ! k) = map (\<lambda>v. w * v) vals ! k"
    unfolding b using k(1) in_b
    by (intro fold_put_nth) (simp_all add: distinct_np_where vals)
  with k have bi: "b ! i = w * bv ! i"
    by (simp add: vals)
  have "i < length b"
    using in_b mem by (simp add: b length_fold_put)
  moreover have "i < length bv"
    using in_bv mem by simp
  ultimately show ?thesis
    using m bv row bi by auto
qed

theorem dirichlet_rows_enforced_witness:
  "\<exists>M b. PrimalVEM_matrix_rhs line_grid line_data line_mapped = Inr (M, b)
      \<and> elem M 0 0 = 4 \<and> elem M 0 1 = 0 \<and> elem M 0 2 = 0 \<and> b ! 0 = 20"
proof -
  have "case PrimalVEM_matrix_rhs line_grid line_data line_mapped of
          Inl e \<Rightarrow> False | Inr Mb \<Rightarrow> True"
    by code_simp
  then obtain M b where Mb: "PrimalVEM_matrix_rhs line_grid line_data line_mapped = Inr (M, b)"
    by (auto split: sum.splits)
  have w: "map_sum id snd (matrix line_grid line_data line_mapped True) = Inr (Some 4)"
    by code_simp
  have dim: "0 < dim line_grid"
    by (simp add: line_grid_def)
  have param: "line_data ''param'' = Some (Param line_param)"
    by (simp add: line_data_def)
  have bc: "get_bc line_param = Some \<lparr>is_dir = [True, False, True]\<rparr>"
    and bv: "get_bc_val line_param = Some [5, 0, 7]"
    by (simp_all add: line_param_def)
  from dirichlet_rows_enforced [OF Mb dim param bc, of 0] w bv
  have "elem M 0 0 = 4 \<and> elem M 0 1 = 0 \<and> elem M 0 2 = 0 \<and> b ! 0 = 20"
    by auto
  with Mb show ?thesis by blast
qed

subsection \<open>Gauss-Jordan elimination solves the system\<close>

lemma sum_range_eq: "sum_range n f = (\<Sum>k<n. f k)"
  by (simp add: sum_range_def interv_sum_list_conv_sum_set_nat atLeast_upt)

lemma solvesD: "solves n A B X \<Longrightarrow> i < n \<Longrightarrow> (\<Sum>k<n. A i k * X k j) = B i j"
  by (simp add: solves_def)

lemma fold_best_in_set:
  "fold (\<lambda>p best. if P p best then p else best) qs q \<in> set (q # qs)"
  by (induction qs arbitrary: q) auto

lemma pivot_row_Some:
  assumes "pivot_row A n k = Some p"
  shows "k \<le> p" and "p < n" and "A p k \<noteq> 0"
proof -
  from assms obtain q qs where f: "filter (\<lambda>p. A p k \<noteq> 0) [k ..< n] = q # qs"
    and p: "p = fold (\<lambda>p best. if \<bar>A best k\<bar> < \<bar>A p k\<bar> then p else best) qs q"
    by (auto simp: pivot_row_def split: list.splits)
  have "p \<in> set (q # qs)"
    unfolding p by (rule fold_best_in_set)
  then have "p \<in> set (filter (\<lambda>p. A p k \<noteq> 0) [k ..< n])"
    by (simp only: f)
  then show "k \<le> p" and "p < n" and "A p k \<noteq> 0"
    by simp_all
qed

lemma solves_swap_rows:
  assumes "k < n" and "p < n" and "solves n (swap_rows k p A) (swap_rows k p B) X"
  shows "solves n A B X"
  unfolding solves_def
proof (intro allI impI)
  fix i j
  assume i: "i < n"
  show "(\<Sum>c<n. A i c * X c j) = B i j"
  proof (cases "i = k")
    case True
    from assms(2,3) have "(\<Sum>c<n. swap_rows k p A p c * X c j) = swap_rows k p B p j"
      by (simp add: solves_def)
    with True show ?thesis
      by (simp add: swap_rows_def split: if_splits)
  next
    case False
    show ?thesis
    proof (cases "i = p")
      case True
      from assms(1,3) have "(\<Sum>c<n. swap_rows k p A k c * X c j) = swap_rows k p B k j"
        by (simp add: solves_def)
      with True show ?thesis
        by (simp add: swap_rows_def)
    next
      case False
      from assms(3) i have "(\<Sum>c<n. swap_rows k p A i c * X c j) = swap_rows k p B i j"
        by (simp add: solves_def)
      with False \<open>i \<noteq> k\<close> show ?thesis
        by (simp add: swap_rows_def)
    qed
  qed
qed

lemma solves_eliminate:
  assumes "k < n" and "p < n" and "A p k \<noteq> 0"
    and "solves n (fst (eliminate k p (A, B))) (snd (eliminate k p (A, B))) X"
  shows "solves n A B X"
proof -
  define A1 where "A1 = swap_rows k p A"
  define B1 where "B1 = swap_rows k p B"
  define piv where "piv = A1 k k"
  have piv: "piv \<noteq> 0"
    using assms(3) by (simp add: piv_def A1_def swap_rows_def)
  have A': "fst (eliminate k p (A, B)) =
      (\<lambda>i j. if i = k then A1 k j / piv else A1 i j - A1 i k * (A1 k j / piv))"
    and B': "snd (eliminate k p (A, B)) =
      (\<lambda>i j. if i = k then B1 k j / piv else B1 i j - A1 i k * (B1 k j / piv))"
    unfolding A1_def B1_def piv_def by (simp_all add: eliminate_def Let_def)
  have rowk: "(\<Sum>c<n. A1 k c * X c j) = B1 k j" for j
  proof -
    have "(\<Sum>c<n. A1 k c * X c j) / piv = B1 k j / piv"
      using solvesD [OF assms(4) assms(1), of j] by (simp add: A' B' sum_divide_distrib)
    with piv show ?thesis by simp
  qed
  have "solves n A1 B1 X"
    unfolding solves_def
  proof (intro allI impI)
    fix i j
    assume i: "i < n"
    show "(\<Sum>c<n. A1 i c * X c j) = B1 i j"
    proof (cases "i = k")
      case True
      with rowk show ?thesis by simp
    next
      case False
      with solvesD [OF assms(4) i, of j]
      have "(\<Sum>c<n. (A1 i c - A1 i k * (A1 k c / piv)) * X c j) = B1 i j - A1 i k * (B1 k j / piv)"
        by (simp add: A' B')
      moreover have "(\<Sum>c<n. (A1 i c - A1 i k * (A1 k c / piv)) * X c j)
          = (\<Sum>c<n. A1 i c * X c j) - A1 i k / piv * (\<Sum>c<n. A1 k c * X c j)"
        by (simp add: sum_subtractf sum_distrib_left algebra_simps)
      ultimately show ?thesis
        by (simp add: rowk)
    qed
  qed
  then show ?thesis
    using assms(1,2) unfolding A1_def B1_def by (rule solves_swap_rows [rotated 2])
qed

lemma unit_cols_eliminate:
  assumes "k < n" and "k \<le> p" and "p < n" and "A p k \<noteq> 0" and "unit_cols n k A"
  shows "unit_cols n (Suc k) (fst (eliminate k p (A, B)))"
proof -
  define A1 where "A1 = swap_rows k p A"
  define piv where "piv = A1 k k"
  have piv: "piv \<noteq> 0"
    using assms(4) by (simp add: piv_def A1_def swap_rows_def)
  have A': "fst (eliminate k p (A, B)) =
      (\<lambda>i j. if i = k then A1 k j / piv else A1 i j - A1 i k * (A1 k j / piv))"
    unfolding A1_def piv_def by (simp add: eliminate_def Let_def)
  have old: "A1 i j = (if i = j then 1 else 0)" if "i < n" "j < k" for i j
    using that assms(1,2,3,5) by (auto simp: A1_def swap_rows_def unit_cols_def)
  show ?thesis
    unfolding unit_cols_def A'
  proof (intro allI impI)
    fix i j
    assume i: "i < n" and j: "j < Suc k"
    show "(if i = k then A1 k j / piv else A1 i j - A1 i k * (A1 k j / piv)) = (if i = j then 1 else 0)"
    proof (cases "j = k")
      case True
      with piv show ?thesis by (simp add: piv_def)
    next
      case False
      with j have "j < k" by simp
      with i assms(1) show ?thesis
        by (simp add: old)
    qed
  qed
qed

lemma gauss_jordan_sound:
  assumes "gauss_jordan n r AB = Some AB'" and "r \<le> n" and "unit_cols n (n - r) (fst AB)"
  shows "unit_cols n n (fst AB') \<and> (\<forall>X. solves n (fst AB') (snd AB') X \<longrightarrow> solves n (fst AB) (snd AB) X)"
  using assms
proof (induction r arbitrary: AB)
  case 0
  then show ?case by simp
next
  case (Suc r)
  define k where "k = n - Suc r"
  obtain A B where AB: "AB = (A, B)"
    by (cases AB)
  have k: "k < n" and sk: "n - r = Suc k" and r: "r \<le> n"
    using Suc.prems(2) by (simp_all add: k_def)
  from Suc.prems(1) obtain p where p: "pivot_row A n k = Some p"
    and rec: "gauss_jordan n r (eliminate k p (A, B)) = Some AB'"
    by (cases "pivot_row A n k") (simp_all add: AB k_def)
  note piv = pivot_row_Some [OF p]
  have uA: "unit_cols n k A"
    using Suc.prems(3) by (simp add: AB k_def)
  have "unit_cols n (Suc k) (fst (eliminate k p (A, B)))"
    by (rule unit_cols_eliminate [where A = A and p = p, OF k piv uA])
  then have u: "unit_cols n (n - r) (fst (eliminate k p (A, B)))"
    by (simp only: sk)
  note IH = Suc.IH [OF rec r u]
  have "solves n A B X" if "solves n (fst AB') (snd AB') X" for X
  proof -
    from IH that
    have "solves n (fst (eliminate k p (A, B))) (snd (eliminate k p (A, B))) X"
      by blast
    then show ?thesis
      by (rule solves_eliminate [where A = A and B = B and p = p and k = k, OF k piv(2,3)])
  qed
  with IH show ?case
    by (simp add: AB)
qed

lemma linalg_solve_sound:
  assumes "linalg_solve G F = Inr X"
  shows "nrows X = nrows G" and "ncols X = ncols F" and "ncols G = nrows G" and "nrows F = nrows G"
    and "solves (nrows G) (elem G) (elem F) (elem X)"
proof -
  let ?n = "nrows G"
  from assms have sq: "ncols G = ?n" "nrows F = ?n"
    by (simp_all add: linalg_solve_def split: if_splits)
  with assms obtain AB where gj: "gauss_jordan ?n ?n (elem G, elem F) = Some AB"
    and X: "X = \<lparr>nrows = ?n, ncols = ncols F, elem = snd AB\<rparr>"
    by (cases "gauss_jordan ?n ?n (elem G, elem F)") (simp_all add: linalg_solve_def)
  from X sq show "nrows X = ?n" "ncols X = ncols F" "ncols G = ?n" "nrows F = ?n"
    by simp_all
  have u0: "unit_cols ?n (?n - ?n) (fst (elem G, elem F))"
    by (simp add: unit_cols_def)
  note gs = gauss_jordan_sound [where AB = "(elem G, elem F)" and AB' = AB, OF gj order_refl u0]
  from gs have u: "unit_cols ?n ?n (fst AB)"
    by (rule conjunct1)
  have "solves ?n (fst AB) (snd AB) (snd AB)"
    unfolding solves_def
  proof (intro allI impI)
    fix i j
    assume i: "i < ?n"
    have "(\<Sum>k<?n. fst AB i k * snd AB k j) = (\<Sum>k<?n. (if k = i then snd AB k j else 0))"
    proof (rule sum.cong)
      fix k assume "k \<in> {..<?n}"
      then have "fst AB i k = (if i = k then 1 else 0)"
        using u i by (simp add: unit_cols_def)
      then show "fst AB i k * snd AB k j = (if k = i then snd AB k j else 0)"
        by simp
    qed simp
    also have "\<dots> = snd AB i j"
      using i by (simp add: sum.delta)
    finally show "(\<Sum>k<?n. fst AB i k * snd AB k j) = snd AB i j" .
  qed
  with gs have "solves ?n (elem G) (elem F) (snd AB)"
    by simp
  then show "solves ?n (elem G) (elem F) (elem X)"
    by (simp add: X)
qed

subsection \<open>The algebra of the projection\<close>

text \<open>
  With \<open>\<Pi>\<close> the projection, \<open>D\<close> the basis at the nodes and \<open>g\<close> the diagonal of \<open>Gtilde\<close>, the
  local matrix is \<open>\<Sum>k. g k \<Pi>\<^sub>k\<^sub>i \<Pi>\<^sub>k\<^sub>j + \<Sum>k. P\<^sub>k\<^sub>i P\<^sub>k\<^sub>j\<close> with \<open>P = I - D \<Pi>\<close>. It is symmetric
  and positive semidefinite whatever \<open>\<Pi>\<close> is, and a vector that it maps to zero is constant,
  with \<open>\<Pi> v\<close> a multiple of the first unit vector. That it maps the constant vectors to
  zero needs that \<open>\<Pi>\<close> maps the constant vector, the first column of \<open>D\<close>, to the first
  unit vector.
\<close>

lemma quad_form:
  fixes v :: "nat \<Rightarrow> real"
  shows "(\<Sum>i<n. \<Sum>j<n. v i * (\<Sum>k<m. c k * M k i * M k j) * v j)
           = (\<Sum>k<m. c k * (\<Sum>i<n. M k i * v i)\<^sup>2)"
proof -
  have "(\<Sum>k<m. c k * (\<Sum>i<n. M k i * v i)\<^sup>2)
          = (\<Sum>k<m. \<Sum>i<n. \<Sum>j<n. c k * ((M k i * v i) * (M k j * v j)))"
  proof (intro sum.cong refl)
    fix k
    have "(\<Sum>i<n. M k i * v i)\<^sup>2 = (\<Sum>i<n. \<Sum>j<n. (M k i * v i) * (M k j * v j))"
      unfolding power2_eq_square by (rule sum_product)
    then show "c k * (\<Sum>i<n. M k i * v i)\<^sup>2
        = (\<Sum>i<n. \<Sum>j<n. c k * ((M k i * v i) * (M k j * v j)))"
      by (simp only: sum_distrib_left)
  qed
  also have "\<dots> = (\<Sum>i<n. \<Sum>k<m. \<Sum>j<n. c k * ((M k i * v i) * (M k j * v j)))"
    by (rule sum.swap)
  also have "\<dots> = (\<Sum>i<n. \<Sum>j<n. \<Sum>k<m. c k * ((M k i * v i) * (M k j * v j)))"
    by (intro sum.cong refl sum.swap)
  also have "\<dots> = (\<Sum>i<n. \<Sum>j<n. v i * (\<Sum>k<m. c k * M k i * M k j) * v j)"
  proof (intro sum.cong refl)
    fix i j
    have "v i * (\<Sum>k<m. c k * M k i * M k j) * v j = (\<Sum>k<m. v i * (c k * M k i * M k j) * v j)"
      by (simp add: sum_distrib_left sum_distrib_right)
    also have "\<dots> = (\<Sum>k<m. c k * ((M k i * v i) * (M k j * v j)))"
      by (intro sum.cong refl) (simp add: mult_ac)
    finally show "(\<Sum>k<m. c k * ((M k i * v i) * (M k j * v j)))
        = v i * (\<Sum>k<m. c k * M k i * M k j) * v j" by simp
  qed
  finally show ?thesis by simp
qed

lemma mat_vec:
  fixes v :: "nat \<Rightarrow> real"
  shows "(\<Sum>j<n. (\<Sum>k<m. c k * M k i * M k j) * v j)
           = (\<Sum>k<m. c k * M k i * (\<Sum>j<n. M k j * v j))"
proof -
  have "(\<Sum>j<n. (\<Sum>k<m. c k * M k i * M k j) * v j)
          = (\<Sum>j<n. \<Sum>k<m. c k * M k i * (M k j * v j))"
    by (simp add: sum_distrib_right mult.assoc)
  also have "\<dots> = (\<Sum>k<m. \<Sum>j<n. c k * M k i * (M k j * v j))"
    by (rule sum.swap)
  also have "\<dots> = (\<Sum>k<m. c k * M k i * (\<Sum>j<n. M k j * v j))"
    by (simp add: sum_distrib_left)
  finally show ?thesis .
qed

lemma quad_form1:
  fixes v :: "nat \<Rightarrow> real"
  shows "(\<Sum>i<n. \<Sum>j<n. v i * (\<Sum>k<m. M k i * M k j) * v j) = (\<Sum>k<m. (\<Sum>i<n. M k i * v i)\<^sup>2)"
  using quad_form [where n = n and v = v and m = m and c = "\<lambda>_. 1" and M = M] by simp

lemma mat_vec1:
  fixes v :: "nat \<Rightarrow> real"
  shows "(\<Sum>j<n. (\<Sum>k<m. M k i * M k j) * v j) = (\<Sum>k<m. M k i * (\<Sum>j<n. M k j * v j))"
  using mat_vec [where n = n and m = m and c = "\<lambda>_. 1" and M = M and i = i and v = v] by simp

lemma sum_head:
  fixes f :: "nat \<Rightarrow> real"
  assumes "0 < m" and "\<forall>k<m. 1 \<le> k \<longrightarrow> f k = 0"
  shows "(\<Sum>k<m. f k) = f 0"
proof -
  have "(\<Sum>k<m. f k) = (\<Sum>k<m. if k = 0 then f 0 else 0)"
    using assms(2) by (intro sum.cong refl) auto
  also have "\<dots> = f 0"
    using assms(1) by (simp add: sum.delta)
  finally show ?thesis .
qed

lemma vem_core:
  fixes Pi D :: "nat \<Rightarrow> nat \<Rightarrow> real" and g :: "nat \<Rightarrow> real"
  assumes m: "0 < m" and g0: "g 0 = 0" and gpos: "\<forall>k<m. 1 \<le> k \<longrightarrow> 0 < g k"
    and D0: "\<forall>i<n. D i 0 = 1"
    and P: "\<forall>k i. P k i = (if k = i then 1 else 0) - (\<Sum>l<m. D k l * Pi l i)"
    and A: "\<forall>i j. A i j = (\<Sum>k<m. g k * Pi k i * Pi k j) + (\<Sum>k<n. P k i * P k j)"
  shows "A i j = A j i"
    and "0 \<le> (\<Sum>i<n. \<Sum>j<n. v i * A i j * v j)"
    and "(\<forall>i<n. (\<Sum>j<n. A i j * v j) = 0) \<Longrightarrow>
           (\<forall>k<m. 1 \<le> k \<longrightarrow> (\<Sum>i<n. Pi k i * v i) = 0) \<and> (\<forall>i<n. v i = (\<Sum>i<n. Pi 0 i * v i))"
    and "(\<forall>k<m. (\<Sum>i<n. Pi k i * D i 0) = (if k = 0 then 1 else 0)) \<Longrightarrow> (\<exists>c. \<forall>i<n. v i = c)
           \<Longrightarrow> (\<forall>i<n. (\<Sum>j<n. A i j * v j) = 0)"
proof -
  define w where "w = (\<lambda>k. \<Sum>i<n. Pi k i * v i)"
  define u where "u = (\<lambda>k. \<Sum>i<n. P k i * v i)"
  have gnn: "0 \<le> g k" if "k < m" for k
    using that g0 gpos by (cases "k = 0") (auto simp: less_imp_le)
  show "A i j = A j i"
    by (simp add: A mult_ac)
  have Av: "(\<Sum>j<n. A i j * v j) = (\<Sum>k<m. g k * Pi k i * w k) + (\<Sum>k<n. P k i * u k)" for i
  proof -
    have "(\<Sum>j<n. A i j * v j)
        = (\<Sum>j<n. (\<Sum>k<m. g k * Pi k i * Pi k j) * v j) + (\<Sum>j<n. (\<Sum>k<n. P k i * P k j) * v j)"
      by (simp add: A distrib_right sum.distrib)
    also have "\<dots> = (\<Sum>k<m. g k * Pi k i * w k) + (\<Sum>k<n. P k i * u k)"
      by (simp only: mat_vec [where c = g and M = Pi] mat_vec1 [where M = P] w_def u_def)
    finally show ?thesis .
  qed
  have quad: "(\<Sum>i<n. \<Sum>j<n. v i * A i j * v j) = (\<Sum>k<m. g k * (w k)\<^sup>2) + (\<Sum>k<n. (u k)\<^sup>2)"
  proof -
    have "(\<Sum>i<n. \<Sum>j<n. v i * A i j * v j)
        = (\<Sum>i<n. \<Sum>j<n. v i * (\<Sum>k<m. g k * Pi k i * Pi k j) * v j)
          + (\<Sum>i<n. \<Sum>j<n. v i * (\<Sum>k<n. P k i * P k j) * v j)"
      by (simp add: A distrib_left distrib_right sum.distrib)
    also have "\<dots> = (\<Sum>k<m. g k * (w k)\<^sup>2) + (\<Sum>k<n. (u k)\<^sup>2)"
      by (simp only: quad_form [where c = g and M = Pi] quad_form1 [where M = P] w_def u_def)
    finally show ?thesis .
  qed
  have quad': "(\<Sum>i<n. \<Sum>j<n. v i * A i j * v j) = (\<Sum>i<n. v i * (\<Sum>j<n. A i j * v j))"
    by (simp add: sum_distrib_left mult.assoc)
  show "0 \<le> (\<Sum>i<n. \<Sum>j<n. v i * A i j * v j)"
    unfolding quad by (intro add_nonneg_nonneg sum_nonneg mult_nonneg_nonneg) (simp_all add: gnn)
  have uk: "u k = v k - (\<Sum>l<m. D k l * w l)" if "k < n" for k
  proof -
    have "u k = (\<Sum>i<n. (if k = i then 1 else 0) * v i) - (\<Sum>i<n. (\<Sum>l<m. D k l * Pi l i) * v i)"
      by (simp add: u_def P left_diff_distrib sum_subtractf)
    also have "(\<Sum>i<n. (if k = i then 1 else 0) * v i) = (\<Sum>i<n. if i = k then v i else 0)"
      by (intro sum.cong refl) auto
    also have "\<dots> = v k"
      using that by (simp add: sum.delta)
    also have "(\<Sum>i<n. (\<Sum>l<m. D k l * Pi l i) * v i) = (\<Sum>i<n. \<Sum>l<m. D k l * (Pi l i * v i))"
      by (simp add: sum_distrib_right mult.assoc)
    also have "\<dots> = (\<Sum>l<m. \<Sum>i<n. D k l * (Pi l i * v i))"
      by (rule sum.swap)
    also have "\<dots> = (\<Sum>l<m. D k l * w l)"
      by (simp add: w_def sum_distrib_left)
    finally show ?thesis .
  qed
  show "(\<forall>k<m. 1 \<le> k \<longrightarrow> (\<Sum>i<n. Pi k i * v i) = 0) \<and> (\<forall>i<n. v i = (\<Sum>i<n. Pi 0 i * v i))"
    if null: "\<forall>i<n. (\<Sum>j<n. A i j * v j) = 0"
  proof -
    from null have "(\<Sum>i<n. \<Sum>j<n. v i * A i j * v j) = 0"
      unfolding quad' by simp
    then have z: "(\<Sum>k<m. g k * (w k)\<^sup>2) + (\<Sum>k<n. (u k)\<^sup>2) = 0"
      by (simp only: quad)
    have nn1: "0 \<le> (\<Sum>k<m. g k * (w k)\<^sup>2)"
      by (intro sum_nonneg mult_nonneg_nonneg) (simp_all add: gnn)
    have nn2: "0 \<le> (\<Sum>k<n. (u k)\<^sup>2)"
      by (intro sum_nonneg) simp
    from z nn1 nn2 have z1: "(\<Sum>k<m. g k * (w k)\<^sup>2) = 0" and z2: "(\<Sum>k<n. (u k)\<^sup>2) = 0"
      by linarith+
    have "\<forall>k\<in>{..<m}. g k * (w k)\<^sup>2 = 0"
      using z1 by (subst (asm) sum_nonneg_eq_0_iff) (simp_all add: gnn)
    then have w0: "w k = 0" if "k < m" "1 \<le> k" for k
    proof -
      from that gpos have "0 < g k" by blast
      moreover from \<open>\<forall>k\<in>{..<m}. g k * (w k)\<^sup>2 = 0\<close> that(1) have "g k * (w k)\<^sup>2 = 0"
        by simp
      ultimately show ?thesis by simp
    qed
    have "\<forall>k\<in>{..<n}. (u k)\<^sup>2 = 0"
      using z2 by (subst (asm) sum_nonneg_eq_0_iff) simp_all
    then have u0: "u k = 0" if "k < n" for k
      using that by simp
    have vk: "v k = w 0" if "k < n" for k
    proof -
      have "(\<Sum>l<m. D k l * w l) = D k 0 * w 0"
        using m w0 by (intro sum_head) auto
      with uk [OF that] u0 [OF that] D0 that show ?thesis
        by simp
    qed
    from w0 vk show ?thesis
      unfolding w_def by blast
  qed
  show "\<forall>i<n. (\<Sum>j<n. A i j * v j) = 0"
    if PD: "\<forall>k<m. (\<Sum>i<n. Pi k i * D i 0) = (if k = 0 then 1 else 0)"
      and const: "\<exists>c. \<forall>i<n. v i = c"
  proof -
    from const obtain c where c: "\<And>i. i < n \<Longrightarrow> v i = c"
      by blast
    have wk: "w k = (if k = 0 then c else 0)" if "k < m" for k
    proof -
      have "w k = (\<Sum>i<n. c * (Pi k i * D i 0))"
        unfolding w_def using c D0 by (intro sum.cong refl) simp
      also have "\<dots> = c * (\<Sum>i<n. Pi k i * D i 0)"
        by (simp add: sum_distrib_left)
      finally show ?thesis
        using PD that by simp
    qed
    have u0: "u k = 0" if "k < n" for k
    proof -
      have "(\<Sum>l<m. D k l * w l) = D k 0 * w 0"
        using m wk by (intro sum_head) auto
      with uk [OF that] wk [OF m] D0 that c [OF that] show ?thesis
        by simp
    qed
    show "\<forall>i<n. (\<Sum>j<n. A i j * v j) = 0"
    proof (intro allI impI)
      fix i
      have "(\<Sum>k<m. g k * Pi k i * w k) = 0"
      proof (rule sum.neutral, rule ballI)
        fix k assume "k \<in> {..<m}"
        then show "g k * Pi k i * w k = 0"
          using wk [of k] g0 by (cases "k = 0") simp_all
      qed
      moreover have "(\<Sum>k<n. P k i * u k) = 0"
        by (rule sum.neutral) (simp add: u0)
      ultimately show "(\<Sum>j<n. A i j * v j) = 0"
        by (simp add: Av)
    qed
  qed
qed

subsection \<open>The local stiffness matrix\<close>

lemma Gtilde_entry:
  assumes "i \<le> d" and "j \<le> d"
  shows "elem (local_Gtilde d c_volume diam) i j = (if 1 \<le> i \<and> i = j then c_volume / diam\<^sup>2 else 0)"
proof (cases "1 \<le> i \<and> 1 \<le> j")
  case False
  then show ?thesis by (auto simp: local_Gtilde_def)
next
  case True
  then have i: "i - 1 < d" and ij: "j - 1 = i - 1 \<longleftrightarrow> i = j"
    using assms by auto
  have "(\<Sum>k<d. ((if i - 1 = k then 1 else 0) / diam) * ((if j - 1 = k then 1 else 0) / diam))
      = (\<Sum>k<d. if k = i - 1 then (if j - 1 = i - 1 then 1 / diam\<^sup>2 else 0) else (0::real))"
    by (intro sum.cong refl) (auto simp: power2_eq_square)
  also have "\<dots> = (if j - 1 = i - 1 then 1 / diam\<^sup>2 else 0)"
    using i by (simp add: sum.delta)
  finally show ?thesis
    using True ij by (simp add: local_Gtilde_def local_grad_def sum_range_eq)
qed

lemma G_entry:
  "elem (local_G c_center c_volume diam coord) i j =
     (if i = 0 then (\<Sum>n<ncols coord. elem (local_D c_center diam coord) n j) / real (ncols coord)
      else elem (local_Gtilde (nrows coord) c_volume diam) i j)"
  by (simp add: local_G_def Let_def sum_range_eq)

lemma G_shape:
  "nrows (local_G c_center c_volume diam coord) = nrows coord + 1"
  "ncols (local_G c_center c_volume diam coord) = nrows coord + 1"
  by (simp_all add: local_G_def Let_def local_Gtilde_def)

lemma F_shape:
  "nrows (local_F normals diam coord node_faces) = nrows coord + 1"
  "ncols (local_F normals diam coord node_faces) = ncols coord"
  by (simp_all add: local_F_def Let_def)

lemma D_shape:
  "nrows (local_D c_center diam coord) = ncols coord"
  "ncols (local_D c_center diam coord) = nrows coord + 1"
  by (simp_all add: local_D_def)

lemma D_first_column: "elem (local_D c_center diam coord) n 0 = 1"
  by (simp add: local_D_def mono_def)

lemma stiffH1_Inr:
  assumes "stiffH1 K c_center c_volume normals diam coord node_faces = Inr A"
  shows "0 < ncols coord" and "diam = 0 \<longrightarrow> nrows coord = 0"
    and "\<exists>Pi_s. linalg_solve (local_G c_center c_volume diam coord)
                   (local_F normals diam coord node_faces) = Inr Pi_s
           \<and> A = add2 (dot (transpose2 Pi_s) (dot (local_Gtilde (nrows coord) c_volume diam) Pi_s))
                      (dot (transpose2 (sub2 (eye (ncols coord)) (dot (local_D c_center diam coord) Pi_s)))
                           (sub2 (eye (ncols coord)) (dot (local_D c_center diam coord) Pi_s)))"
proof -
  let ?ok = "\<not> (0 < ncols coord \<and> length c_center < nrows coord) \<and> nrows normals = nrows coord
     \<and> \<not> (1 \<le> nrows coord \<and> 0 < ncols coord
           \<and> (nrows node_faces < ncols coord \<or> ncols node_faces \<noteq> ncols normals))
     \<and> \<not> (ncols coord = 0 \<or> (diam = 0 \<and> 1 \<le> nrows coord)
           \<or> \<not> allclose (local_G c_center c_volume diam coord)
                 (dot (local_F normals diam coord node_faces) (local_D c_center diam coord)))"
  have ok: ?ok
  proof (rule ccontr)
    assume "\<not> ?ok"
    then have "\<exists>e. stiffH1 K c_center c_volume normals diam coord node_faces = Inl e"
      unfolding stiffH1_def Let_def by (auto simp del: One_nat_def)
    with assms show False by auto
  qed
  from ok show "0 < ncols coord" and "diam = 0 \<longrightarrow> nrows coord = 0"
    by auto
  from ok have "stiffH1 K c_center c_volume normals diam coord node_faces =
      bindE (linalg_solve (local_G c_center c_volume diam coord)
                   (local_F normals diam coord node_faces)) (\<lambda>Pi_s.
      Inr (add2 (dot (transpose2 Pi_s) (dot (local_Gtilde (nrows coord) c_volume diam) Pi_s))
                      (dot (transpose2 (sub2 (eye (ncols coord)) (dot (local_D c_center diam coord) Pi_s)))
                           (sub2 (eye (ncols coord)) (dot (local_D c_center diam coord) Pi_s)))))"
    unfolding stiffH1_def Let_def by (auto simp del: One_nat_def)
  with assms show "\<exists>Pi_s. linalg_solve (local_G c_center c_volume diam coord)
                   (local_F normals diam coord node_faces) = Inr Pi_s
           \<and> A = add2 (dot (transpose2 Pi_s) (dot (local_Gtilde (nrows coord) c_volume diam) Pi_s))
                      (dot (transpose2 (sub2 (eye (ncols coord)) (dot (local_D c_center diam coord) Pi_s)))
                           (sub2 (eye (ncols coord)) (dot (local_D c_center diam coord) Pi_s)))"
    by (auto simp: bindE_eq_Inr)
qed

lemma exactly_equal_iff:
  "exactly_equal A B \<longleftrightarrow> (\<forall>i<nrows A. \<forall>j<ncols A. elem A i j = elem B i j)"
  by (auto simp: exactly_equal_def list_all_iff)

lemma first_columns_equal_iff:
  "first_columns_equal A B \<longleftrightarrow> (\<forall>i<nrows A. elem A i 0 = elem B i 0)"
  by (auto simp: first_columns_equal_def list_all_iff)

lemma solves_column:
  assumes "solves m G F X" and "i < m"
  shows "(\<Sum>k<m. G i k * (\<Sum>l<n. X k l * D l j)) = (\<Sum>l<n. F i l * D l j)"
proof -
  have "(\<Sum>k<m. G i k * (\<Sum>l<n. X k l * D l j)) = (\<Sum>k<m. \<Sum>l<n. (G i k * X k l) * D l j)"
    by (simp add: sum_distrib_left mult.assoc)
  also have "\<dots> = (\<Sum>l<n. \<Sum>k<m. (G i k * X k l) * D l j)"
    by (rule sum.swap)
  also have "\<dots> = (\<Sum>l<n. (\<Sum>k<m. G i k * X k l) * D l j)"
    by (simp add: sum_distrib_right)
  also have "\<dots> = (\<Sum>l<n. F i l * D l j)"
    using solvesD [OF assms] by simp
  finally show ?thesis .
qed

text \<open>
  Claim C2, as stated, fails. The unit interval with normals \<open>-1\<close> and \<open>1 + 10\<^sup>-\<^sup>9\<close> passes
  the assertion, which compares \<open>G\<close> and \<open>F\<cdot>D\<close> up to a tolerance, and \<open>G\<close> is not singular;
  \<open>stiffH1\<close> returns a matrix that does not map the constant vector to zero.
\<close>

theorem stiffH1_tolerance_counterexample:
  "map_sum id (\<lambda>A. (matvec A (\<lambda>i. 1) 0, matvec A (\<lambda>i. 1) 1))
     (stiffH1 unit_K [1 / 2] 1 drifted_normals 1 unit_coord own_faces)
   = Inr (- (1 / 1000000000), 2000000003 / 2000000000000000000)"
  by code_simp

text \<open>
  A second way to fail: a negative volume with inward normals satisfies \<open>G = F\<cdot>D\<close>
  exactly, and the matrix returned is not positive semidefinite.
\<close>

lemma stiffH1_negative_volume_example:
  "exactly_equal (local_G [1 / 2] (- 1) 1 unit_coord)
     (dot (local_F inward_normals 1 unit_coord own_faces) (local_D [1 / 2] 1 unit_coord))
   \<and> map_sum id (\<lambda>A. quadratic A (\<lambda>i. if i = 0 then 1 else 0))
         (stiffH1 unit_K [1 / 2] (- 1) inward_normals 1 unit_coord own_faces) = Inr (- 1)"
  by code_simp

text \<open>
  Claim C2, amended. The floats are taken as reals, so without rounding and overflow. For
  a cell of positive volume, when \<open>stiffH1\<close> returns a matrix \<open>A\<close> (the assertion passes and
  \<open>G\<close> is not singular), \<open>A\<close> is square over the nodes of the cell, symmetric and positive
  semidefinite, and every \<open>v\<close> with \<open>A v = 0\<close> is constant. The constant vectors all satisfy
  \<open>A v = 0\<close> if and only if the first columns of \<open>G\<close> and \<open>F\<cdot>D\<close> are equal exactly, not only
  up to the tolerance of the assertion. So when \<open>G = F\<cdot>D\<close> holds exactly, \<open>A v = 0\<close> holds
  exactly for the constant vectors \<open>v\<close>.
\<close>

theorem stiffH1_spd_constants:
  assumes ret: "stiffH1 K c_center c_volume normals diam coord node_faces = Inr A"
    and vol: "0 < c_volume"
  shows "nrows A = ncols coord \<and> ncols A = ncols coord
       \<and> (\<forall>i j. elem A i j = elem A j i)
       \<and> (\<forall>v. 0 \<le> quadratic A v)
       \<and> (\<forall>v. (\<forall>i<ncols coord. matvec A v i = 0) \<longrightarrow> (\<exists>c. \<forall>i<ncols coord. v i = c))
       \<and> ((\<forall>v. (\<exists>c. \<forall>i<ncols coord. v i = c) \<longrightarrow> (\<forall>i<ncols coord. matvec A v i = 0))
            \<longleftrightarrow> first_columns_equal (local_G c_center c_volume diam coord)
                  (dot (local_F normals diam coord node_faces) (local_D c_center diam coord)))
       \<and> (exactly_equal (local_G c_center c_volume diam coord)
              (dot (local_F normals diam coord node_faces) (local_D c_center diam coord))
            \<longrightarrow> (\<forall>v. (\<forall>i<ncols coord. matvec A v i = 0) \<longleftrightarrow> (\<exists>c. \<forall>i<ncols coord. v i = c)))"
proof -
  define d where "d = nrows coord"
  define n where "n = ncols coord"
  define m where "m = d + 1"
  define G where "G = local_G c_center c_volume diam coord"
  define F where "F = local_F normals diam coord node_faces"
  define D where "D = local_D c_center diam coord"
  define Gt where "Gt = local_Gtilde d c_volume diam"
  from stiffH1_Inr [OF ret] obtain Pi_s where n: "0 < n" and diam: "diam = 0 \<longrightarrow> d = 0"
    and solve: "linalg_solve G F = Inr Pi_s"
    and A: "A = add2 (dot (transpose2 Pi_s) (dot Gt Pi_s))
                    (dot (transpose2 (sub2 (eye n) (dot D Pi_s))) (sub2 (eye n) (dot D Pi_s)))"
    unfolding d_def n_def G_def F_def D_def Gt_def by blast
  have shapes: "nrows G = m" "ncols G = m" "nrows F = m" "ncols F = n" "nrows D = n" "ncols D = m"
    "nrows Gt = m" "ncols Gt = m"
    by (simp_all add: G_def F_def D_def Gt_def G_shape F_shape D_shape m_def d_def n_def
          local_Gtilde_def)
  note S = linalg_solve_sound [OF solve]
  have Pi_shape: "nrows Pi_s = m" "ncols Pi_s = n"
    using S(1,2) shapes by simp_all
  have sol: "solves m (elem G) (elem F) (elem Pi_s)"
    using S(5) shapes by simp
  define s where "s = c_volume / diam\<^sup>2"
  define g :: "nat \<Rightarrow> real" where "g = (\<lambda>k. if 1 \<le> k then s else 0)"
  define P where "P = (\<lambda>k i. (if k = i then 1 else 0) - (\<Sum>l<m. elem D k l * elem Pi_s l i))"
  have Gt: "elem Gt k l = (if 1 \<le> k \<and> k = l then s else 0)" if "k < m" "l < m" for k l
    using that unfolding Gt_def s_def by (intro Gtilde_entry) (simp_all add: m_def)
  have Gtrow: "(\<Sum>l<m. elem Gt k l * X l) = g k * X k" if "k < m" for k and X :: "nat \<Rightarrow> real"
  proof -
    have "(\<Sum>l<m. elem Gt k l * X l) = (\<Sum>l<m. if l = k then g k * X l else 0)"
      using that by (intro sum.cong refl) (auto simp: Gt g_def)
    also have "\<dots> = g k * X k"
      using that by (simp add: sum.delta)
    finally show ?thesis .
  qed
  have Aij: "elem A i j = (\<Sum>k<m. g k * elem Pi_s k i * elem Pi_s k j) + (\<Sum>k<n. P k i * P k j)" for i j
  proof -
    have "elem A i j = (\<Sum>k<m. elem Pi_s k i * (\<Sum>l<m. elem Gt k l * elem Pi_s l j))
                         + (\<Sum>k<n. P k i * P k j)"
      by (simp add: A add2_def dot_def transpose2_def sub2_def eye_def sum_range_eq
            shapes Pi_shape P_def)
    also have "(\<Sum>k<m. elem Pi_s k i * (\<Sum>l<m. elem Gt k l * elem Pi_s l j))
        = (\<Sum>k<m. g k * elem Pi_s k i * elem Pi_s k j)"
      by (intro sum.cong refl) (simp add: Gtrow)
    finally show ?thesis .
  qed
  have spos: "0 < s" if "1 \<le> d"
    using that diam vol by (simp add: s_def)
  have gpos: "\<forall>k<m. 1 \<le> k \<longrightarrow> 0 < g k"
    using spos by (auto simp: g_def m_def)
  have D0: "\<forall>i<n. elem D i 0 = 1"
    by (simp add: D_def D_first_column)
  define Y where "Y = (\<lambda>k. \<Sum>i<n. elem Pi_s k i * elem D i 0)"
  have FD0: "elem (dot F D) i 0 = (\<Sum>l<n. elem F i l * elem D l 0)" for i
    by (simp add: dot_def sum_range_eq shapes)
  have GY: "(\<Sum>k<m. elem G i k * Y k) = elem (dot F D) i 0" if "i < m" for i
    unfolding Y_def FD0 by (rule solves_column [OF sol that])
  have Grow: "elem G i k = elem Gt i k" if "1 \<le> i" for i k
    using that by (simp add: G_def Gt_def G_entry d_def)
  have G00: "elem G 0 0 = 1"
    using n by (simp add: G_def G_entry D_first_column n_def)
  have Gk0: "elem G k 0 = 0" if "k < m" "1 \<le> k" for k
    using that by (simp add: Grow Gt m_def)
  have m0: "0 < m" by (simp add: m_def)
  have g0: "g 0 = 0" by (simp add: g_def)
  have PD_iff: "(\<forall>k<m. Y k = (if k = 0 then 1 else 0)) \<longleftrightarrow> first_columns_equal G (dot F D)"
  proof
    assume Y: "\<forall>k<m. Y k = (if k = 0 then 1 else 0)"
    have "elem G i 0 = elem (dot F D) i 0" if "i < m" for i
    proof -
      have "(\<Sum>k<m. elem G i k * Y k) = elem G i 0 * Y 0"
        using Y by (intro sum_head) (auto simp: m_def)
      with GY [OF that] Y m0 show ?thesis
        by simp
    qed
    then show "first_columns_equal G (dot F D)"
      by (simp add: first_columns_equal_iff shapes)
  next
    assume "first_columns_equal G (dot F D)"
    then have col: "elem (dot F D) i 0 = elem G i 0" if "i < m" for i
      using that by (simp add: first_columns_equal_iff shapes)
    have Y1: "Y k = 0" if "k < m" "1 \<le> k" for k
    proof -
      have "(\<Sum>l<m. elem Gt k l * Y l) = elem G k 0"
        using GY [OF that(1)] that(2) col [OF that(1)] by (simp add: Grow)
      then have "g k * Y k = 0"
        by (simp only: Gtrow [OF that(1)] Gk0 [OF that])
      moreover have "0 < g k"
        using gpos that by blast
      ultimately show ?thesis by simp
    qed
    have "(\<Sum>k<m. elem G 0 k * Y k) = elem G 0 0 * Y 0"
      using Y1 by (intro sum_head) (auto simp: m_def)
    with GY [OF m0] G00 col [OF m0] have "Y 0 = 1"
      by simp
    with Y1 show "\<forall>k<m. Y k = (if k = 0 then 1 else 0)"
      by auto
  qed
  have Pall: "\<forall>k i. P k i = (if k = i then 1 else 0) - (\<Sum>l<m. elem D k l * elem Pi_s l i)"
    by (simp add: P_def)
  have Aall: "\<forall>i j. elem A i j = (\<Sum>k<m. g k * elem Pi_s k i * elem Pi_s k j) + (\<Sum>k<n. P k i * P k j)"
    using Aij by blast
  note core = vem_core [where m = m and n = n and g = g and D = "elem D" and Pi = "elem Pi_s"
      and P = P and A = "elem A", OF m0 g0 gpos D0 Pall Aall]
  have Ashape: "nrows A = n" "ncols A = n"
    by (simp_all add: A add2_def dot_def transpose2_def Pi_shape)
  have mv: "matvec A v i = (\<Sum>j<n. elem A i j * v j)" for v i
    by (simp add: matvec_def Ashape sum_range_eq)
  have qd: "quadratic A v = (\<Sum>i<n. \<Sum>j<n. v i * elem A i j * v j)" for v
    by (simp add: quadratic_def mv Ashape sum_range_eq sum_distrib_left mult.assoc)
  have sym: "\<forall>i j. elem A i j = elem A j i"
    using core(1) by blast
  have psd: "\<forall>v. 0 \<le> quadratic A v"
    using core(2) by (simp add: qd)
  have kernel: "\<exists>c. \<forall>i<n. v i = c" if "\<forall>i<n. matvec A v i = 0" for v
    using core(3) [of v] that by (auto simp: mv)
  have cst: "(\<forall>v. (\<exists>c. \<forall>i<n. v i = c) \<longrightarrow> (\<forall>i<n. matvec A v i = 0))
      \<longleftrightarrow> first_columns_equal G (dot F D)"
  proof
    assume all: "\<forall>v. (\<exists>c. \<forall>i<n. v i = c) \<longrightarrow> (\<forall>i<n. matvec A v i = 0)"
    from all [THEN spec, of "\<lambda>_. 1"] have "\<forall>i<n. matvec A (\<lambda>_. 1) i = 0"
      by simp
    then have "\<forall>i<n. (\<Sum>j<n. elem A i j * (1::real)) = 0"
      by (simp add: mv)
    from core(3) [of "\<lambda>_. 1", OF this]
    have w1: "\<forall>k<m. 1 \<le> k \<longrightarrow> (\<Sum>i<n. elem Pi_s k i) = 0"
      and w0: "\<forall>i<n. 1 = (\<Sum>i<n. elem Pi_s 0 i)"
      by simp_all
    have Yk: "Y k = (\<Sum>i<n. elem Pi_s k i)" for k
      unfolding Y_def using D0 by (intro sum.cong refl) simp
    have "\<forall>k<m. Y k = (if k = 0 then 1 else 0)"
      using w1 w0 n by (auto simp: Yk)
    then show "first_columns_equal G (dot F D)"
      by (simp only: PD_iff)
  next
    assume "first_columns_equal G (dot F D)"
    then have PD: "\<forall>k<m. (\<Sum>i<n. elem Pi_s k i * elem D i 0) = (if k = 0 then 1 else 0)"
      unfolding PD_iff [symmetric] Y_def .
    show "\<forall>v. (\<exists>c. \<forall>i<n. v i = c) \<longrightarrow> (\<forall>i<n. matvec A v i = 0)"
      using core(4) [OF PD] by (simp add: mv)
  qed
  have exact: "first_columns_equal G (dot F D)" if "exactly_equal G (dot F D)"
    using that m0 by (simp add: exactly_equal_iff first_columns_equal_iff shapes)
  show ?thesis
    unfolding n_def [symmetric] G_def [symmetric] F_def [symmetric] D_def [symmetric]
    using Ashape sym psd kernel cst exact by blast
qed

theorem stiffH1_spd_constants_witness:
  "\<exists>A. stiffH1 unit_K [1 / 2] 1 outward_normals 1 unit_coord own_faces = Inr A
     \<and> nrows A = 2 \<and> elem A 0 1 = elem A 1 0
     \<and> 0 \<le> quadratic A (\<lambda>i. if i = 0 then 1 else 0)
     \<and> matvec A (\<lambda>i. 1) 0 = 0 \<and> matvec A (\<lambda>i. 1) 1 = 0"
proof -
  have "case stiffH1 unit_K [1 / 2] 1 outward_normals 1 unit_coord own_faces of
          Inl e \<Rightarrow> False | Inr A \<Rightarrow> True"
    by code_simp
  then obtain A where A: "stiffH1 unit_K [1 / 2] 1 outward_normals 1 unit_coord own_faces = Inr A"
    by (auto split: sum.splits)
  have col: "first_columns_equal (local_G [1 / 2] 1 1 unit_coord)
     (dot (local_F outward_normals 1 unit_coord own_faces) (local_D [1 / 2] 1 unit_coord))"
    by code_simp
  have n: "ncols unit_coord = 2"
    by (simp add: unit_coord_def of_rows_def)
  have vol: "0 < (1 :: real)"
    by simp
  note spd = stiffH1_spd_constants [OF A vol, unfolded n]
  have "\<forall>v. (\<exists>c. \<forall>i<2. v i = c) \<longrightarrow> (\<forall>i<2. matvec A v i = 0)"
    using spd col by blast
  from this [THEN spec, of "\<lambda>i. 1"] have "\<forall>i<2. matvec A (\<lambda>i. 1) i = 0"
    by simp
  then have "matvec A (\<lambda>i. 1) 0 = 0 \<and> matvec A (\<lambda>i. 1) 1 = 0"
    by simp
  with spd A show ?thesis
    by auto
qed

subsection \<open>The local stiffness matrix and the permeability\<close>

text \<open>
  Claim C9. The local matrix that \<open>stiffH1\<close> returns does not depend on the permeability:
  two calls that differ in \<open>K\<close> alone have the same result.
\<close>

theorem stiffH1_ignores_K:
  "stiffH1 K1 c_center c_volume normals diam coord node_faces
     = stiffH1 K2 c_center c_volume normals diam coord node_faces"
  by (simp add: stiffH1_def)

end
